theory Spec2Isabelle
  imports Complex_Main "HOL-Library.AList"
begin

section \<open>Strings and patterns\<close>

text \<open>
  JavaScript strings are modelled as \<open>string\<close>, one \<open>char\<close> per code unit; the model
  covers code units below 256 (Latin-1).  \<open>str_includes s sub\<close> is
  \<open>s.includes(sub)\<close>, a substring test.
\<close>

fun starts_with :: "string \<Rightarrow> string \<Rightarrow> bool" where
  "starts_with s [] = True"
| "starts_with [] (p # ps) = False"
| "starts_with (x # xs) (p # ps) = (x = p \<and> starts_with xs ps)"

fun str_includes :: "string \<Rightarrow> string \<Rightarrow> bool" where
  "str_includes [] sub = (sub = [])"
| "str_includes (x # xs) sub = (starts_with (x # xs) sub \<or> str_includes xs sub)"

text \<open>
  The permission rules all carry the \<open>i\<close> flag and consist of literal characters,
  \<open>\s+\<close>, \<open>\s*\<close>, \<open>.*\<close>, grouping and alternation.  A literal of the pattern is
  compared after canonicalisation (upper-casing), which for a pattern character below
  128 can only be met by an input character below 128.
\<close>

definition canonicalize :: "char \<Rightarrow> char" where
  "canonicalize c =
     (let n = (of_char c :: nat) in if 97 \<le> n \<and> n \<le> 122 then char_of (n - 32) else c)"

definition is_space :: "char \<Rightarrow> bool" where
  "is_space c = ((of_char c :: nat) \<in> {9, 10, 11, 12, 13, 32, 160})"

definition is_line_terminator :: "char \<Rightarrow> bool" where
  "is_line_terminator c = ((of_char c :: nat) \<in> {10, 13})"

datatype regex =
    Eps
  | Chr char
  | WsPlus
  | WsStar
  | AnyStar
  | Seq regex regex
  | Alt regex regex

fun lit :: "string \<Rightarrow> regex" where
  "lit [] = Eps"
| "lit [c] = Chr c"
| "lit (c # cs) = Seq (Chr c) (lit cs)"

fun seqs :: "regex list \<Rightarrow> regex" where
  "seqs [] = Eps"
| "seqs [r] = r"
| "seqs (r # rs) = Seq r (seqs rs)"

fun alts :: "regex \<Rightarrow> regex list \<Rightarrow> regex" where
  "alts r [] = r"
| "alts r (q # qs) = Alt r (alts q qs)"

text \<open>\<open>run_rests p s\<close>: the inputs left after consuming zero or more leading
  characters of \<open>s\<close> that satisfy \<open>p\<close> (every way a starred class can match).\<close>

fun run_rests :: "(char \<Rightarrow> bool) \<Rightarrow> string \<Rightarrow> string list" where
  "run_rests p [] = [[]]"
| "run_rests p (x # xs) = (x # xs) # (if p x then run_rests p xs else [])"

text \<open>\<open>rmatch r s\<close>: the inputs left after \<open>r\<close> has matched a prefix of \<open>s\<close>, one entry
  for each way of matching.\<close>

fun rmatch :: "regex \<Rightarrow> string \<Rightarrow> string list" where
  "rmatch Eps s = [s]"
| "rmatch (Chr c) s =
     (case s of [] \<Rightarrow> [] | x # xs \<Rightarrow> if canonicalize x = canonicalize c then [xs] else [])"
| "rmatch WsPlus s =
     (case s of [] \<Rightarrow> [] | x # xs \<Rightarrow> if is_space x then run_rests is_space xs else [])"
| "rmatch WsStar s = run_rests is_space s"
| "rmatch AnyStar s = run_rests (\<lambda>c. \<not> is_line_terminator c) s"
| "rmatch (Seq a b) s = concat (map (rmatch b) (rmatch a s))"
| "rmatch (Alt a b) s = rmatch a s @ rmatch b s"

text \<open>\<open>RegExp.prototype.test\<close> without the \<open>g\<close> or \<open>y\<close> flag: is there a match starting
  at some position of the input.\<close>

fun test :: "regex \<Rightarrow> string \<Rightarrow> bool" where
  "test r [] = (rmatch r [] \<noteq> [])"
| "test r (x # xs) = (rmatch r (x # xs) \<noteq> [] \<or> test r xs)"


section \<open>Approval gate: risk assessment\<close>

datatype RiskLevel = Low | Medium | High | Critical

datatype PermissionStatus = Pending | Approved | Denied | Expired

datatype PersonaType =
    RequirementsAnalyst
  | UiUxDesigner
  | FrontendDeveloper
  | BackendArchitect
  | QaEngineer
  | SecurityAnalyst
  | TechnicalWriter
  | DevopsEngineer

record PermissionRule =
  rule_pattern :: regex
  rule_riskLevel :: RiskLevel
  rule_requiresApproval :: bool
  rule_timeout :: nat
  rule_reason :: string

record RiskAssessment =
  level :: RiskLevel
  factors :: "string list"
  score :: int
  recommendation :: string

text \<open>The rule table installed by \<open>initializePermissionRules\<close>, in its order.\<close>

definition permissionRules :: "PermissionRule list" where
  "permissionRules =
   [ \<lparr>rule_pattern =
        alts (seqs [lit ''rm'', WsPlus, lit ''-rf''])
          [lit ''rmdir'', seqs [lit ''delete'', AnyStar, lit ''.git''],
           seqs [lit ''format'', AnyStar, lit ''disk'']],
      rule_riskLevel = Critical, rule_requiresApproval = True, rule_timeout = 600000,
      rule_reason = ''Destructive file system operation''\<rparr>,
     \<lparr>rule_pattern =
        alts (seqs [lit ''chmod'', WsPlus, lit ''777''])
          [seqs [lit ''chown'', AnyStar, lit ''root''], seqs [lit ''sudo'', AnyStar, lit ''rm'']],
      rule_riskLevel = High, rule_requiresApproval = True, rule_timeout = 300000,
      rule_reason = ''Elevated permissions required''\<rparr>,
     \<lparr>rule_pattern =
        alts (seqs [lit ''npm'', WsPlus, lit ''install'', AnyStar, lit ''-g''])
          [seqs [lit ''yarn'', AnyStar, lit ''global''],
           seqs [lit ''pip'', AnyStar, lit ''install'', AnyStar, lit ''--user'']],
      rule_riskLevel = Medium, rule_requiresApproval = True, rule_timeout = 180000,
      rule_reason = ''Global package installation''\<rparr>,
     \<lparr>rule_pattern =
        alts (seqs [lit ''drop'', WsPlus, alts (lit ''database'') [lit ''table'', lit ''schema'']])
          [seqs [lit ''truncate'', AnyStar, lit ''table''],
           seqs [lit ''delete'', AnyStar, lit ''from'', AnyStar, lit ''where'', AnyStar, lit ''1=1'']],
      rule_riskLevel = Critical, rule_requiresApproval = True, rule_timeout = 600000,
      rule_reason = ''Destructive database operation''\<rparr>,
     \<lparr>rule_pattern =
        alts (seqs [lit ''alter'', WsPlus, alts (lit ''table'') [lit ''database'']])
          [seqs [lit ''create'', AnyStar, lit ''index''], seqs [lit ''grant'', AnyStar, lit ''all'']],
      rule_riskLevel = High, rule_requiresApproval = True, rule_timeout = 300000,
      rule_reason = ''Database schema modification''\<rparr>,
     \<lparr>rule_pattern =
        alts (seqs [lit ''curl'', AnyStar, lit ''|'', WsStar, lit ''sh''])
          [seqs [lit ''wget'', AnyStar, lit ''|'', WsStar, lit ''bash''],
           seqs [lit ''ssh'', AnyStar, lit ''root@'']],
      rule_riskLevel = Critical, rule_requiresApproval = True, rule_timeout = 600000,
      rule_reason = ''Remote code execution risk''\<rparr>,
     \<lparr>rule_pattern =
        alts (seqs [lit ''git'', AnyStar, lit ''push'', AnyStar, lit ''--force''])
          [seqs [lit ''git'', AnyStar, lit ''reset'', AnyStar, lit ''--hard'', AnyStar, lit ''HEAD'']],
      rule_riskLevel = High, rule_requiresApproval = True, rule_timeout = 300000,
      rule_reason = ''Potentially destructive Git operation''\<rparr>,
     \<lparr>rule_pattern =
        alts (seqs [lit ''docker'', AnyStar, lit ''run'', AnyStar, lit ''--privileged''])
          [seqs [lit ''docker'', AnyStar, lit ''rm'', AnyStar, lit ''-f'']],
      rule_riskLevel = High, rule_requiresApproval = True, rule_timeout = 300000,
      rule_reason = ''Privileged container operation''\<rparr>,
     \<lparr>rule_pattern =
        alts (seqs [lit ''export'', AnyStar, lit ''PATH=''])
          [seqs [lit ''unset'', AnyStar, lit ''PATH''], seqs [lit ''rm'', AnyStar, lit ''.env'']],
      rule_riskLevel = Medium, rule_requiresApproval = True, rule_timeout = 180000,
      rule_reason = ''Environment variable modification''\<rparr>,
     \<lparr>rule_pattern =
        alts (seqs [lit ''deploy'', AnyStar, lit ''production''])
          [seqs [lit ''push'', AnyStar, lit ''main''], seqs [lit ''merge'', AnyStar, lit ''master'']],
      rule_riskLevel = High, rule_requiresApproval = True, rule_timeout = 300000,
      rule_reason = ''Production deployment''\<rparr> ]"

fun getRiskScore :: "RiskLevel \<Rightarrow> int" where
  "getRiskScore Low = 10"
| "getRiskScore Medium = 30"
| "getRiskScore High = 60"
| "getRiskScore Critical = 100"

fun getTimeoutForRisk :: "RiskLevel \<Rightarrow> nat" where
  "getTimeoutForRisk Low = 60000"
| "getTimeoutForRisk Medium = 180000"
| "getTimeoutForRisk High = 300000"
| "getTimeoutForRisk Critical = 600000"

fun generateRiskRecommendation :: "RiskLevel \<Rightarrow> string list \<Rightarrow> string" where
  "generateRiskRecommendation Critical fs =
     ''CRITICAL: This operation could cause significant damage. Carefully review before approval.''"
| "generateRiskRecommendation High fs =
     ''HIGH RISK: This operation requires careful consideration and may affect system stability.''"
| "generateRiskRecommendation Medium fs =
     ''MEDIUM RISK: Standard approval required. Review the operation details.''"
| "generateRiskRecommendation Low fs =
     ''LOW RISK: Safe operation that can typically be auto-approved.''"

text \<open>The loop of \<open>assessRisk\<close> over the rules, threading \<open>score\<close>, \<open>factors\<close> and
  \<open>level\<close>.\<close>

fun check_rules ::
  "PermissionRule list \<Rightarrow> string \<Rightarrow> int \<Rightarrow> string list \<Rightarrow> RiskLevel
    \<Rightarrow> int \<times> string list \<times> RiskLevel" where
  "check_rules [] command sc fs lv = (sc, fs, lv)"
| "check_rules (rule # rules) command sc fs lv =
     (if test (rule_pattern rule) command
      then check_rules rules command
             (sc + getRiskScore (rule_riskLevel rule))
             (fs @ [rule_reason rule])
             (if getRiskScore (rule_riskLevel rule) > getRiskScore lv
              then rule_riskLevel rule else lv)
      else check_rules rules command sc fs lv)"

text \<open>The three contextual factors of \<open>assessRisk\<close>, each a step on the running
  \<open>(score, factors, level)\<close>, and the final threshold step.\<close>

fun production_factor :: "string \<Rightarrow> int \<times> string list \<times> RiskLevel \<Rightarrow> int \<times> string list \<times> RiskLevel" where
  "production_factor context (sc, fs, lv) =
     (if str_includes context ''production'' \<or> str_includes context ''prod''
      then (sc + 30, fs @ [''Production environment''], if lv = Low then Medium else lv)
      else (sc, fs, lv))"

fun database_factor :: "string \<Rightarrow> int \<times> string list \<times> RiskLevel \<Rightarrow> int \<times> string list \<times> RiskLevel" where
  "database_factor context (sc, fs, lv) =
     (if str_includes context ''database'' \<or> str_includes context ''db''
      then (sc + 20, fs @ [''Database operation''], lv)
      else (sc, fs, lv))"

fun privilege_factor :: "string \<Rightarrow> int \<times> string list \<times> RiskLevel \<Rightarrow> int \<times> string list \<times> RiskLevel" where
  "privilege_factor command (sc, fs, lv) =
     (if str_includes command ''sudo'' \<or> str_includes command ''root''
      then (sc + 25, fs @ [''Elevated privileges''], lv)
      else (sc, fs, lv))"

fun final_level :: "int \<times> string list \<times> RiskLevel \<Rightarrow> RiskAssessment" where
  "final_level (sc, fs, lv) =
     (if sc \<ge> 80 then
        \<lparr>level = Critical, factors = fs, score = sc,
         recommendation = generateRiskRecommendation Critical fs\<rparr>
      else if sc \<ge> 50 then
        \<lparr>level = High, factors = fs, score = sc,
         recommendation = generateRiskRecommendation High fs\<rparr>
      else if sc \<ge> 20 then
        \<lparr>level = Medium, factors = fs, score = sc,
         recommendation = generateRiskRecommendation Medium fs\<rparr>
      else
        \<lparr>level = lv, factors = fs, score = sc,
         recommendation = generateRiskRecommendation lv fs\<rparr>)"

definition assessRisk :: "PermissionRule list \<Rightarrow> string \<Rightarrow> string \<Rightarrow> RiskAssessment" where
  "assessRisk rules command context =
     final_level
       (privilege_factor command
         (database_factor context
           (production_factor context
             (check_rules rules command 0 [] Low))))"

definition requiresApproval :: "PermissionRule list \<Rightarrow> string \<Rightarrow> RiskLevel \<Rightarrow> bool" where
  "requiresApproval rules command riskLevel =
     (if riskLevel = Critical \<or> riskLevel = High then True
      else case find (\<lambda>rule. test (rule_pattern rule) command) rules of
             Some rule \<Rightarrow> rule_requiresApproval rule
           | None \<Rightarrow> riskLevel = Medium)"

text \<open>The level the score thresholds alone give, and the rules that match a command.\<close>

definition score_level :: "int \<Rightarrow> RiskLevel" where
  "score_level sc =
     (if sc \<ge> 80 then Critical else if sc \<ge> 50 then High
      else if sc \<ge> 20 then Medium else Low)"

definition matching_rules :: "PermissionRule list \<Rightarrow> string \<Rightarrow> PermissionRule list" where
  "matching_rules rules command = filter (\<lambda>rule. test (rule_pattern rule) command) rules"


text \<open>The claim's reading of the final level: the score-derived level, unless some rule
  matches, in which case the level of the highest matching rule is returned.\<close>

fun highest_level :: "RiskLevel list \<Rightarrow> RiskLevel \<Rightarrow> RiskLevel" where
  "highest_level [] best = best"
| "highest_level (l # ls) best =
     highest_level ls (if getRiskScore l > getRiskScore best then l else best)"

definition spec_level :: "PermissionRule list \<Rightarrow> string \<Rightarrow> string \<Rightarrow> RiskLevel" where
  "spec_level rules command context =
     (case map rule_riskLevel (matching_rules rules command) of
        [] \<Rightarrow> score_level (score (assessRisk rules command context))
      | l # ls \<Rightarrow> highest_level ls l)"

section \<open>Approval gate: request lifecycle\<close>

record PermissionResponse =
  approved :: bool
  respondedAt :: nat
  reason :: "string option"
  respondedBy :: string

record PermissionRequest =
  req_id :: string
  req_agent :: PersonaType
  req_command :: string
  req_context :: string
  req_riskLevel :: RiskLevel
  req_timeout :: nat
  createdAt :: nat
  status :: PermissionStatus
  response :: "PermissionResponse option"

datatype persisted_json = RequestJson PermissionRequest | ResponseJson PermissionResponse

text \<open>
  The state of a \<open>PermissionManager\<close>: its two maps, and what it has done to the outside:
  the files written under the permissions directory, the armed timers (request id and
  delay), the events emitted (event name and request id) and the lines logged.
  \<open>detached\<close> holds each request object that has left \<open>pendingRequests\<close>, with the
  field values it was given before it was deleted from the map (the object lives on in
  the closures and event payloads that reference it).
\<close>

record gate =
  pendingRequests :: "string \<rightharpoonup> PermissionRequest"
  permissionHistory :: "string \<rightharpoonup> PermissionResponse"
  detached :: "string \<rightharpoonup> PermissionRequest"
  persisted :: "string \<rightharpoonup> persisted_json"
  timers :: "(string \<times> nat) list"
  events :: "(string \<times> string) list"
  gate_log :: "string list"

text \<open>What a call takes from outside the manager: the clock, the random request id,
  and whether the file write and the notification channels succeed (each can throw).\<close>

record env =
  now :: nat
  newId :: string
  persistOk :: bool
  notifyOk :: bool

datatype gate_error = REQUEST_NOT_FOUND | REQUEST_ALREADY_RESOLVED | IO_FAILED

datatype request_outcome = Immediate PermissionResponse | Awaiting string

text \<open>The response \<open>requestPermission\<close> builds when no approval is required.\<close>

definition autoApproval :: "nat \<Rightarrow> PermissionResponse" where
  "autoApproval t =
     \<lparr>approved = True, respondedAt = t, reason = Some ''Auto-approved: low risk operation'',
      respondedBy = ''system''\<rparr>"

definition requestPermission ::
  "env \<Rightarrow> gate \<Rightarrow> PersonaType \<Rightarrow> string \<Rightarrow> string \<Rightarrow> (gate_error + request_outcome) \<times> gate" where
  "requestPermission e g agent command context =
     (let riskAssessment = assessRisk permissionRules command context in
      if \<not> requiresApproval permissionRules command (level riskAssessment) then
        (Inr (Immediate (autoApproval (now e))),
         g\<lparr>gate_log := gate_log g @ [''Operation auto-approved'']\<rparr>)
      else
        let request = \<lparr>req_id = newId e, req_agent = agent, req_command = command,
                       req_context = context, req_riskLevel = level riskAssessment,
                       req_timeout = getTimeoutForRisk (level riskAssessment),
                       createdAt = now e, status = Pending, response = None\<rparr>;
            g1 = g\<lparr>pendingRequests := (pendingRequests g)(req_id request \<mapsto> request)\<rparr>
        in if \<not> persistOk e then (Inl IO_FAILED, g1)
           else
             let g2 = g1\<lparr>persisted := (persisted g1)(req_id request @ ''.json'' \<mapsto> RequestJson request),
                        gate_log := gate_log g1 @ [''Permission request created'']\<rparr>
             in if \<not> notifyOk e then (Inl IO_FAILED, g2)
                else
                  (Inr (Awaiting (req_id request)),
                   g2\<lparr>events := events g2 @ [(''dashboard.notification'', req_id request),
                                               (''permission.requested'', req_id request)],
                      gate_log := gate_log g2 @ [''Approval notifications sent''],
                      timers := timers g2 @ [(req_id request, req_timeout request)]\<rparr>))"

definition respondToRequest ::
  "env \<Rightarrow> gate \<Rightarrow> string \<Rightarrow> bool \<Rightarrow> string option \<Rightarrow> string \<Rightarrow> (gate_error + unit) \<times> gate" where
  "respondToRequest e g requestId approve why who =
     (case pendingRequests g requestId of
        None \<Rightarrow> (Inl REQUEST_NOT_FOUND, g)
      | Some request \<Rightarrow>
          if status request \<noteq> Pending then (Inl REQUEST_ALREADY_RESOLVED, g)
          else
            let resp = \<lparr>approved = approve, respondedAt = now e, reason = why, respondedBy = who\<rparr>;
                request' = request\<lparr>response := Some resp,
                                    status := (if approve then Approved else Denied)\<rparr>;
                g1 = g\<lparr>permissionHistory := (permissionHistory g)(requestId \<mapsto> resp),
                       pendingRequests := (pendingRequests g)(requestId := None),
                       detached := (detached g)(requestId \<mapsto> request')\<rparr>
            in if \<not> persistOk e then (Inl IO_FAILED, g1)
               else
                 let g2 = g1\<lparr>persisted := (persisted g1)(requestId @ ''-response.json'' \<mapsto> ResponseJson resp),
                            gate_log := gate_log g1 @ [''Permission request resolved''],
                            events := events g1 @
                              [(if approve then ''permission.approved'' else ''permission.denied'', requestId)]\<rparr>
                 in if \<not> notifyOk e then (Inl IO_FAILED, g2)
                    else (Inr (), g2\<lparr>events := events g2 @ [(''dashboard.notification'', requestId)]\<rparr>))"

definition cancelRequest ::
  "env \<Rightarrow> gate \<Rightarrow> string \<Rightarrow> string \<Rightarrow> (gate_error + unit) \<times> gate" where
  "cancelRequest e g requestId why =
     (case pendingRequests g requestId of
        None \<Rightarrow> (Inl REQUEST_NOT_FOUND, g)
      | Some request \<Rightarrow>
          let resp = \<lparr>approved = False, respondedAt = now e, reason = Some why,
                      respondedBy = ''system''\<rparr>;
              request' = request\<lparr>status := Expired, response := Some resp\<rparr>;
              g1 = g\<lparr>pendingRequests := (pendingRequests g)(requestId := None),
                     permissionHistory := (permissionHistory g)(requestId \<mapsto> resp),
                     detached := (detached g)(requestId \<mapsto> request')\<rparr>
          in if \<not> persistOk e then (Inl IO_FAILED, g1)
             else
               (Inr (),
                g1\<lparr>persisted := (persisted g1)(requestId @ ''-response.json'' \<mapsto> ResponseJson resp),
                   gate_log := gate_log g1 @ [''Permission request cancelled''],
                   events := events g1 @ [(''permission.cancelled'', requestId)]\<rparr>))"

text \<open>The callback armed by \<open>setupRequestTimeout\<close>, run when the timer of request
  \<open>requestId\<close> fires.\<close>

fun disarm :: "string \<Rightarrow> (string \<times> nat) list \<Rightarrow> (string \<times> nat) list" where
  "disarm requestId [] = []"
| "disarm requestId (t # ts) = (if fst t = requestId then ts else t # disarm requestId ts)"

definition timeoutFired :: "env \<Rightarrow> gate \<Rightarrow> string \<Rightarrow> (gate_error + unit) \<times> gate" where
  "timeoutFired e g requestId =
     (let g0 = g\<lparr>timers := disarm requestId (timers g)\<rparr>
      in if requestId \<in> dom (pendingRequests g0)
         then cancelRequest e g0 requestId ''Request timeout''
         else (Inr (), g0))"

text \<open>One poll of \<open>waitForResponse\<close>: the promise resolves, rejects with a
  \<open>PermissionDeniedError\<close> (message and reason), or the poll is rescheduled
  (\<open>None\<close>).  \<open>waitForResponse\<close> itself polls the successive states of the gate, one
  second apart, until a poll settles the promise.\<close>

datatype wait_result = Resolved PermissionResponse | Rejected string "string option"

definition checkResponse :: "gate \<Rightarrow> string \<Rightarrow> wait_result option" where
  "checkResponse g requestId =
     (case permissionHistory g requestId of
        Some resp \<Rightarrow>
          if approved resp then Some (Resolved resp)
          else Some (Rejected (''Permission denied for request '' @ requestId) (reason resp))
      | None \<Rightarrow>
          (case pendingRequests g requestId of
             Some request \<Rightarrow>
               if status request = Expired
               then Some (Rejected (''Permission request expired: '' @ requestId)
                                   (Some ''Request timeout''))
               else None
           | None \<Rightarrow> None))"

fun waitForResponse :: "gate list \<Rightarrow> string \<Rightarrow> wait_result option" where
  "waitForResponse [] requestId = None"
| "waitForResponse (g # gs) requestId =
     (case checkResponse g requestId of
        Some r \<Rightarrow> Some r
      | None \<Rightarrow> waitForResponse gs requestId)"

definition empty_gate :: gate where
  "empty_gate = \<lparr>pendingRequests = Map.empty, permissionHistory = Map.empty,
                  detached = Map.empty, persisted = Map.empty, timers = [],
                  events = [], gate_log = []\<rparr>"

text \<open>An environment in which every file write and notification succeeds.\<close>

definition env0 :: env where
  "env0 = \<lparr>now = 1000, newId = ''4f1c0a9b3e7d2a68'', persistOk = True, notifyOk = True\<rparr>"

text \<open>A request that needs approval, and the gate after \<open>requestPermission\<close> has
  created it.\<close>

definition request1 :: PermissionRequest where
  "request1 =
     \<lparr>req_id = ''4f1c0a9b3e7d2a68'', req_agent = BackendArchitect, req_command = ''sudo rm x'',
      req_context = [], req_riskLevel = Critical, req_timeout = 600000, createdAt = 1000,
      status = Pending, response = None\<rparr>"

definition gate1 :: gate where
  "gate1 = snd (requestPermission env0 empty_gate BackendArchitect ''sudo rm x'' [])"

section \<open>Resource ledger (ContextManager)\<close>

text \<open>
  Sizes and usages are integers (\<open>calculateItemSize\<close> rounds); percentages are
  JavaScript numbers, modelled as exact rationals.  \<open>js_round\<close> is \<open>Math.round\<close>:
  the nearest integer, a half rounding up.
\<close>

definition js_round :: "rat \<Rightarrow> int" where
  "js_round x = \<lfloor>x + 1 / 2\<rfloor>"

datatype ItemType = FileItem | InterfaceItem | DependencyItem | ConfigItem

record ContextItem =
  item_type :: ItemType
  path :: string
  content :: "string option"
  item_size :: int

record ContextWindow =
  persona :: PersonaType
  items :: "ContextItem list"
  currentUsage :: int
  lastUpdated :: nat
  priority :: nat

record ContextLimits =
  maxPercentage :: rat
  warningThreshold :: rat
  maxItems :: nat

text \<open>\<open>agentUsage\<close> is an object keyed by persona; its entries are kept in insertion
  order, and an assignment replaces the value of a key in place or appends the key.\<close>

record ProjectContext =
  totalUsage :: rat
  agentUsage :: "(PersonaType \<times> rat) list"
  activeContext :: "ContextItem list"
  limits :: ContextLimits

text \<open>The state of a \<open>ContextManager\<close>: the windows, the project context, the window
  snapshots written to the context directory, and the names of the events emitted.\<close>

record ledger =
  contextWindows :: "PersonaType \<rightharpoonup> ContextWindow"
  projectContext :: ProjectContext
  persistedState :: "PersonaType \<rightharpoonup> ContextWindow"
  ledger_events :: "string list"

datatype ledger_error =
    CONTEXT_WINDOW_NOT_FOUND
  | ContextOverflowError rat rat
  | WRITE_FAILED

definition personas :: "PersonaType list" where
  "personas =
     [RequirementsAnalyst, UiUxDesigner, FrontendDeveloper, BackendArchitect, QaEngineer,
      SecurityAnalyst, TechnicalWriter, DevopsEngineer]"

fun getPersonaPriority :: "PersonaType \<Rightarrow> nat" where
  "getPersonaPriority RequirementsAnalyst = 9"
| "getPersonaPriority BackendArchitect = 8"
| "getPersonaPriority FrontendDeveloper = 7"
| "getPersonaPriority QaEngineer = 6"
| "getPersonaPriority SecurityAnalyst = 6"
| "getPersonaPriority UiUxDesigner = 5"
| "getPersonaPriority DevopsEngineer = 4"
| "getPersonaPriority TechnicalWriter = 3"

fun adjustments :: "PersonaType \<Rightarrow> rat" where
  "adjustments RequirementsAnalyst = 12 / 10"
| "adjustments UiUxDesigner = 9 / 10"
| "adjustments FrontendDeveloper = 11 / 10"
| "adjustments BackendArchitect = 13 / 10"
| "adjustments QaEngineer = 1"
| "adjustments SecurityAnalyst = 8 / 10"
| "adjustments TechnicalWriter = 7 / 10"
| "adjustments DevopsEngineer = 1"

definition getContextCapacity :: "PersonaType \<Rightarrow> int" where
  "getContextCapacity p = js_round (8000 * adjustments p)"

fun typeSizes :: "ItemType \<Rightarrow> rat" where
  "typeSizes FileItem = 100"
| "typeSizes InterfaceItem = 50"
| "typeSizes DependencyItem = 25"
| "typeSizes ConfigItem = 30"

text \<open>\<open>if (item.content)\<close> holds for a content that is present and not the empty
  string.\<close>

definition calculateItemSize :: "ContextItem \<Rightarrow> int" where
  "calculateItemSize item =
     js_round
       (rat_of_nat (length (path item)) / 4 +
        (case content item of
           Some c \<Rightarrow> if c \<noteq> [] then rat_of_nat (length c) / 4 else typeSizes (item_type item)
         | None \<Rightarrow> typeSizes (item_type item)))"

definition percentage :: "int \<Rightarrow> PersonaType \<Rightarrow> rat" where
  "percentage usage p = (rat_of_int usage / rat_of_int (getContextCapacity p)) * 100"

text \<open>\<open>updateTotalUsage\<close>: the mean of the recorded percentages.  (With no key at all
  JavaScript gives \<open>NaN\<close>; the constructor installs eight keys and none is removed.)\<close>

definition updateTotalUsage :: "ProjectContext \<Rightarrow> ProjectContext" where
  "updateTotalUsage pc =
     pc\<lparr>totalUsage := sum_list (map snd (agentUsage pc)) / rat_of_nat (length (agentUsage pc))\<rparr>"

definition set_agentUsage :: "PersonaType \<Rightarrow> rat \<Rightarrow> ProjectContext \<Rightarrow> ProjectContext" where
  "set_agentUsage p v pc = pc\<lparr>agentUsage := AList.update p v (agentUsage pc)\<rparr>"

text \<open>\<open>findIndex\<close> by path followed by \<open>splice(index, 1)\<close>: the first item with the
  path, and the list without it.\<close>

fun splice_path :: "string \<Rightarrow> ContextItem list \<Rightarrow> (ContextItem \<times> ContextItem list) option" where
  "splice_path p [] = None"
| "splice_path p (x # xs) =
     (if path x = p then Some (x, xs)
      else case splice_path p xs of
             None \<Rightarrow> None
           | Some (r, ys) \<Rightarrow> Some (r, x # ys))"

definition removeContext ::
  "env \<Rightarrow> ledger \<Rightarrow> PersonaType \<Rightarrow> string \<Rightarrow> (ledger_error + bool) \<times> ledger" where
  "removeContext e L p itemPath =
     (case contextWindows L p of
        None \<Rightarrow> (Inr False, L)
      | Some window \<Rightarrow>
          (case splice_path itemPath (items window) of
             None \<Rightarrow> (Inr False, L)
           | Some (removedItem, rest) \<Rightarrow>
               let window' = window\<lparr>items := rest,
                                    currentUsage := currentUsage window - item_size removedItem,
                                    lastUpdated := now e\<rparr>;
                   usagePercentage = percentage (currentUsage window') p;
                   L1 = L\<lparr>contextWindows := (contextWindows L)(p \<mapsto> window'),
                          projectContext :=
                            updateTotalUsage (set_agentUsage p usagePercentage (projectContext L))\<rparr>
               in if \<not> persistOk e then (Inl WRITE_FAILED, L1)
                  else (Inr True, L1\<lparr>persistedState := (persistedState L1)(p \<mapsto> window')\<rparr>)))"

text \<open>\<open>performAutomaticCleanup\<close>: the items sorted by type (the sort is stable), the
  loop that collects paths until the sizes collected reach \<open>requiredSpace\<close>, and the
  loop that removes each collected path.\<close>

fun typePriority :: "ItemType \<Rightarrow> nat" where
  "typePriority ConfigItem = 1"
| "typePriority DependencyItem = 2"
| "typePriority FileItem = 3"
| "typePriority InterfaceItem = 4"

fun itemsToRemove :: "ContextItem list \<Rightarrow> int \<Rightarrow> int \<Rightarrow> string list" where
  "itemsToRemove [] requiredSpace freedSpace = []"
| "itemsToRemove (item # rest) requiredSpace freedSpace =
     (if freedSpace \<ge> requiredSpace then []
      else path item # itemsToRemove rest requiredSpace (freedSpace + item_size item))"

fun remove_each ::
  "env \<Rightarrow> ledger \<Rightarrow> PersonaType \<Rightarrow> string list \<Rightarrow> (ledger_error + unit) \<times> ledger" where
  "remove_each e L p [] = (Inr (), L)"
| "remove_each e L p (itemPath # others) =
     (case removeContext e L p itemPath of
        (Inl err, L1) \<Rightarrow> (Inl err, L1)
      | (Inr removed, L1) \<Rightarrow> remove_each e L1 p others)"

definition performAutomaticCleanup ::
  "env \<Rightarrow> ledger \<Rightarrow> PersonaType \<Rightarrow> int \<Rightarrow> (ledger_error + unit) \<times> ledger" where
  "performAutomaticCleanup e L p requiredSpace =
     (case contextWindows L p of
        None \<Rightarrow> (Inr (), L)
      | Some window \<Rightarrow>
          let sortedItems = sort_key (\<lambda>item. typePriority (item_type item)) (items window)
          in (case remove_each e L p (itemsToRemove sortedItems requiredSpace 0) of
                (Inl err, L1) \<Rightarrow> (Inl err, L1)
              | (Inr u, L1) \<Rightarrow>
                  (Inr (), L1\<lparr>ledger_events := ledger_events L1 @ [''context.cleanup.completed'']\<rparr>)))"

text \<open>The tail of \<open>addContext\<close>, from the push on.  \<open>usagePercentage\<close> is the value
  computed at the head of \<open>addContext\<close>.\<close>

definition admit ::
  "env \<Rightarrow> ledger \<Rightarrow> PersonaType \<Rightarrow> ContextItem \<Rightarrow> int \<Rightarrow> rat \<Rightarrow> (ledger_error + unit) \<times> ledger" where
  "admit e L p item itemSize usagePercentage =
     (case contextWindows L p of
        None \<Rightarrow> (Inl CONTEXT_WINDOW_NOT_FOUND, L)
      | Some window \<Rightarrow>
          let window' = window\<lparr>items := items window @ [item],
                               currentUsage := currentUsage window + itemSize,
                               lastUpdated := now e\<rparr>;
              L1 = L\<lparr>contextWindows := (contextWindows L)(p \<mapsto> window'),
                     projectContext :=
                       updateTotalUsage (set_agentUsage p usagePercentage (projectContext L))\<rparr>
          in if \<not> persistOk e then (Inl WRITE_FAILED, L1)
             else
               let L2 = L1\<lparr>persistedState := (persistedState L1)(p \<mapsto> window')\<rparr>
               in if usagePercentage \<ge> warningThreshold (limits (projectContext L2))
                  then (Inr (), L2\<lparr>ledger_events := ledger_events L2 @ [''context.warning'']\<rparr>)
                  else (Inr (), L2))"

text \<open>\<open>addContext\<close>.  After the cleanup the source reads the same window object again;
  the model looks the window up in the ledger the cleanup returned (it is always
  there).\<close>

definition addContext ::
  "env \<Rightarrow> ledger \<Rightarrow> PersonaType \<Rightarrow> ContextItem \<Rightarrow> (ledger_error + unit) \<times> ledger" where
  "addContext e L p item0 =
     (case contextWindows L p of
        None \<Rightarrow> (Inl CONTEXT_WINDOW_NOT_FOUND, L)
      | Some window \<Rightarrow>
          let itemSize = calculateItemSize item0;
              item = item0\<lparr>item_size := itemSize\<rparr>;
              usagePercentage = percentage (currentUsage window + itemSize) p
          in if usagePercentage > maxPercentage (limits (projectContext L)) then
               (case performAutomaticCleanup e L p itemSize of
                  (Inl err, L1) \<Rightarrow> (Inl err, L1)
                | (Inr u, L1) \<Rightarrow>
                    (case contextWindows L1 p of
                       None \<Rightarrow> (Inl CONTEXT_WINDOW_NOT_FOUND, L1)
                     | Some window1 \<Rightarrow>
                         let updatedPercentage = percentage (currentUsage window1 + itemSize) p
                         in if updatedPercentage > maxPercentage (limits (projectContext L1))
                            then (Inl (ContextOverflowError updatedPercentage
                                         (maxPercentage (limits (projectContext L1)))), L1)
                            else admit e L1 p item itemSize usagePercentage))
             else admit e L p item itemSize usagePercentage)"

definition cleanup :: "env \<Rightarrow> ledger \<Rightarrow> PersonaType \<Rightarrow> (ledger_error + unit) \<times> ledger" where
  "cleanup e L p =
     (case contextWindows L p of
        None \<Rightarrow> (Inr (), L)
      | Some window \<Rightarrow>
          let window' = window\<lparr>items := [], currentUsage := 0, lastUpdated := now e\<rparr>;
              L1 = L\<lparr>contextWindows := (contextWindows L)(p \<mapsto> window'),
                     projectContext := updateTotalUsage (set_agentUsage p 0 (projectContext L))\<rparr>
          in if \<not> persistOk e then (Inl WRITE_FAILED, L1)
             else (Inr (), L1\<lparr>persistedState := (persistedState L1)(p := None),
                              ledger_events := ledger_events L1 @ [''context.cleanup.manual'']\<rparr>))"

fun cleanup_each :: "env \<Rightarrow> ledger \<Rightarrow> PersonaType list \<Rightarrow> (ledger_error + unit) \<times> ledger" where
  "cleanup_each e L [] = (Inr (), L)"
| "cleanup_each e L (p # ps) =
     (case contextWindows L p of
        None \<Rightarrow> cleanup_each e L ps
      | Some window \<Rightarrow>
          if length (items window) > 0 then
            (case cleanup e L p of
               (Inl err, L1) \<Rightarrow> (Inl err, L1)
             | (Inr u, L1) \<Rightarrow> cleanup_each e L1 ps)
          else cleanup_each e L ps)"

definition emergencyCleanup :: "env \<Rightarrow> ledger \<Rightarrow> (ledger_error + unit) \<times> ledger" where
  "emergencyCleanup e L =
     (case cleanup_each e L personas of
        (Inl err, L1) \<Rightarrow> (Inl err, L1)
      | (Inr u, L1) \<Rightarrow>
          (Inr (),
           L1\<lparr>projectContext :=
                (projectContext L1)\<lparr>totalUsage := 0, activeContext := [],
                                     agentUsage := map (\<lambda>(k, v). (k, 0)) (agentUsage (projectContext L1))\<rparr>,
              ledger_events := ledger_events L1 @ [''context.emergency.cleanup'']\<rparr>))"

text \<open>The ledger the constructor builds.\<close>

definition initial_window :: "nat \<Rightarrow> PersonaType \<Rightarrow> ContextWindow" where
  "initial_window t p =
     \<lparr>persona = p, items = [], currentUsage = 0, lastUpdated = t,
      priority = getPersonaPriority p\<rparr>"

definition initial_ledger :: "nat \<Rightarrow> ledger" where
  "initial_ledger t =
     \<lparr>contextWindows = (\<lambda>p. Some (initial_window t p)),
      projectContext =
        \<lparr>totalUsage = 0, agentUsage = map (\<lambda>p. (p, 0)) personas, activeContext = [],
         limits = \<lparr>maxPercentage = 40, warningThreshold = 35, maxItems = 1000\<rparr>\<rparr>,
      persistedState = Map.empty,
      ledger_events = []\<rparr>"

text \<open>The ceiling on every window, and the sizes of the items held.\<close>

definition within_ceiling :: "ledger \<Rightarrow> bool" where
  "within_ceiling L =
     (\<forall>p w. contextWindows L p = Some w \<longrightarrow>
        percentage (currentUsage w) p \<le> maxPercentage (limits (projectContext L)))"

definition sizes_nonneg :: "ledger \<Rightarrow> bool" where
  "sizes_nonneg L =
     (\<forall>p w. contextWindows L p = Some w \<longrightarrow> (\<forall>i \<in> set (items w). 0 \<le> item_size i))"

text \<open>A sequence of reservations and releases, each with the environment it runs in;
  an operation that fails leaves the ledger as it was when it failed, and the sequence
  goes on.\<close>

datatype ledger_op = AddContext PersonaType ContextItem | RemoveContext PersonaType string

fun apply_op :: "env \<Rightarrow> ledger \<Rightarrow> ledger_op \<Rightarrow> ledger" where
  "apply_op e L (AddContext p item) = snd (addContext e L p item)"
| "apply_op e L (RemoveContext p itemPath) = snd (removeContext e L p itemPath)"

fun apply_ops :: "ledger \<Rightarrow> (env \<times> ledger_op) list \<Rightarrow> ledger" where
  "apply_ops L [] = L"
| "apply_ops L ((e, x) # xs) = apply_ops (apply_op e L x) xs"

text \<open>\<open>shrinks L L'\<close>: the limits are the same, the same windows exist, and no window of
  \<open>L'\<close> holds an item or a usage that its window in \<open>L\<close> did not cover.\<close>

definition shrinks :: "ledger \<Rightarrow> ledger \<Rightarrow> bool" where
  "shrinks L L' =
     (limits (projectContext L') = limits (projectContext L) \<and>
      (\<forall>p. rel_option
             (\<lambda>w w'. set (items w') \<subseteq> set (items w) \<and> currentUsage w' \<le> currentUsage w)
             (contextWindows L p) (contextWindows L' p)))"

text \<open>
  A concrete run on the window of the QA engineer (capacity 8000, ceiling 3200 at 40
  percent): a file and a config item are added under the same path, of sizes 2800 and
  300; then a dependency of size 200 is added, which does not fit.
\<close>

definition filler :: "nat \<Rightarrow> string" where
  "filler n = replicate n (CHR ''x'')"

definition file_a :: ContextItem where
  "file_a = \<lparr>item_type = FileItem, path = ''a'', content = Some (filler 11199), item_size = 0\<rparr>"

definition config_a :: ContextItem where
  "config_a = \<lparr>item_type = ConfigItem, path = ''a'', content = Some (filler 1199), item_size = 0\<rparr>"

definition dep_b :: ContextItem where
  "dep_b = \<lparr>item_type = DependencyItem, path = ''b'', content = Some (filler 799), item_size = 0\<rparr>"

definition ledger2 :: ledger where
  "ledger2 =
     apply_ops (initial_ledger 0)
       [(env0, AddContext QaEngineer file_a), (env0, AddContext QaEngineer config_a)]"

definition ledger3 :: ledger where
  "ledger3 = snd (addContext env0 ledger2 QaEngineer dep_b)"

section \<open>Dispatcher (AgentOrchestrator)\<close>

datatype AgentStatus = Idle | Working | Blocked | Error

datatype TaskStatus = TaskPending | InProgress | Testing | Review | Completed | Failed

datatype Priority = LowPriority | MediumPriority | HighPriority | CriticalPriority

text \<open>A task.  \<open>task_id\<close> and \<open>title\<close> are optional in the model so that a task that
  lacks them can be submitted; \<open>!task.id\<close> holds for a missing and for an empty
  string.\<close>

record Task =
  task_id :: "string option"
  title :: "string option"
  description :: string
  task_status :: TaskStatus
  task_priority :: Priority
  assignedAgent :: "PersonaType option"
  dependencies :: "string list"
  contextRequirement :: rat
  acceptanceCriteria :: "string list"

text \<open>An agent.  Its specializations are what \<open>getSpecializations\<close> of its persona
  class returns; the orchestrator copies them, and the model takes them as given.\<close>

record Agent =
  agent_id :: string
  agent_name :: string
  agent_persona :: PersonaType
  specializations :: "string list"
  contextLimit :: rat
  agent_status :: AgentStatus
  currentTask :: "Task option"
  contextUsage :: rat

text \<open>The orchestrator: the agents in the insertion order of the map (the order of
  \<open>agentConfigs\<close>), the queue and the events emitted.\<close>

record orchestrator =
  agents :: "(PersonaType \<times> Agent) list"
  taskQueue :: "Task list"
  isRunning :: bool
  orch_events :: "(string \<times> string option) list"

datatype dispatch_error =
    INVALID_TASK
  | AGENT_NOT_FOUND
  | CONTEXT_LIMIT_EXCEEDED
  | TypeError

text \<open>\<open>toLowerCase\<close> on code units below 256.\<close>

definition to_lower :: "char \<Rightarrow> char" where
  "to_lower c =
     (let n = (of_char c :: nat)
      in if (65 \<le> n \<and> n \<le> 90) \<or> (192 \<le> n \<and> n \<le> 222 \<and> n \<noteq> 215)
         then char_of (n + 32) else c)"

fun join :: "string \<Rightarrow> string list \<Rightarrow> string" where
  "join sep [] = []"
| "join sep [x] = x"
| "join sep (x # y # ys) = x @ sep @ join sep (y # ys)"

text \<open>A missing value in a template literal prints as \<open>undefined\<close>.\<close>

definition template :: "string option \<Rightarrow> string" where
  "template v = (case v of None \<Rightarrow> ''undefined'' | Some s \<Rightarrow> s)"

definition specializationKeywords :: "(string \<times> string list) list" where
  "specializationKeywords =
   [(''stakeholder-analysis'', [''stakeholder'', ''user'', ''business'', ''requirement'', ''analysis'']),
    (''user-story-creation'', [''story'', ''epic'', ''feature'', ''user'', ''need'']),
    (''user-experience-design'', [''ux'', ''user experience'', ''wireframe'', ''prototype'', ''design'']),
    (''interface-design'', [''ui'', ''interface'', ''component'', ''layout'', ''design'']),
    (''react-development'', [''react'', ''component'', ''jsx'', ''hook'', ''state'']),
    (''typescript'', [''typescript'', ''type'', ''interface'', ''generic'']),
    (''api-design'', [''api'', ''endpoint'', ''rest'', ''graphql'', ''service'']),
    (''database-architecture'', [''database'', ''sql'', ''schema'', ''migration'', ''query'']),
    (''test-automation'', [''test'', ''testing'', ''automation'', ''spec'', ''coverage'']),
    (''security-auditing'', [''security'', ''auth'', ''encrypt'', ''vulnerability'', ''audit'']),
    (''documentation'', [''docs'', ''documentation'', ''readme'', ''guide'', ''manual'']),
    (''ci-cd-pipelines'', [''ci'', ''cd'', ''pipeline'', ''deploy'', ''build''])]"

definition task_text :: "Task \<Rightarrow> string" where
  "task_text task =
     map to_lower
       (template (title task) @ '' '' @ description task @ '' '' @
        join '' '' (acceptanceCriteria task))"

text \<open>The inner loop of \<open>analyzeTaskRequirements\<close> (it breaks at the first pattern
  found) and the outer loop over the specializations.\<close>

fun some_pattern :: "string \<Rightarrow> string list \<Rightarrow> bool" where
  "some_pattern text [] = False"
| "some_pattern text (pat # pats) = (if str_includes text pat then True else some_pattern text pats)"

fun extract_keywords :: "string \<Rightarrow> (string \<times> string list) list \<Rightarrow> string list" where
  "extract_keywords text [] = []"
| "extract_keywords text ((specialization, patterns) # more_entries) =
     (if some_pattern text patterns
      then specialization # extract_keywords text more_entries
      else extract_keywords text more_entries)"

definition analyzeTaskRequirements :: "Task \<Rightarrow> string list \<times> int" where
  "analyzeTaskRequirements task =
     (let text = task_text task;
          keywords = extract_keywords text specializationKeywords;
          complexity = 1 + rat_of_nat (length keywords) / 2
                         + min (rat_of_nat (length text) / 1000) 3
      in (keywords, js_round complexity))"

text \<open>The score of one agent in \<open>selectOptimalAgent\<close>.\<close>

fun specialization_score :: "string list \<Rightarrow> string list \<Rightarrow> int" where
  "specialization_score keywords [] = 0"
| "specialization_score keywords (specialization # others) =
     (if specialization \<in> set keywords then 10 else 0) + specialization_score keywords others"

definition agent_score :: "string list \<Rightarrow> Agent \<Rightarrow> int" where
  "agent_score keywords agent =
     specialization_score keywords (specializations agent)
     + (if contextUsage agent < contextLimit agent * (8 / 10) then 5 else 0)
     + (if agent_status agent = Idle then 8
        else if agent_status agent = Working then - 5 else 0)"

text \<open>\<open>selectOptimalAgent\<close>: the scores in map order, sorted by descending score (the
  sort is stable), and the first entry; with no agent at all \<open>agentScores[0]\<close> is
  undefined and reading its persona throws.\<close>

definition agentScores :: "(PersonaType \<times> Agent) list \<Rightarrow> Task \<Rightarrow> (PersonaType \<times> int) list" where
  "agentScores ags task =
     map (\<lambda>(p, agent). (p, agent_score (fst (analyzeTaskRequirements task)) agent)) ags"

definition selectOptimalAgent ::
  "(PersonaType \<times> Agent) list \<Rightarrow> Task \<Rightarrow> dispatch_error + PersonaType" where
  "selectOptimalAgent ags task =
     (case sort_key (\<lambda>entry. - snd entry) (agentScores ags task) of
        [] \<Rightarrow> Inl TypeError
      | selectedAgent # alternatives \<Rightarrow> Inr (fst selectedAgent))"

text \<open>\<open>assignTask\<close> returns its outcome, the task object as the call leaves it (the
  assigned agent is written into it) and the orchestrator.\<close>

definition assignTask ::
  "orchestrator \<Rightarrow> Task \<Rightarrow> (dispatch_error + unit) \<times> Task \<times> orchestrator" where
  "assignTask orch task =
     (if task_id task = None \<or> task_id task = Some [] \<or> title task = None \<or> title task = Some []
      then (Inl INVALID_TASK, task, orch)
      else
        case (case assignedAgent task of
                Some a \<Rightarrow> Inr a
              | None \<Rightarrow> selectOptimalAgent (agents orch) task) of
          Inl err \<Rightarrow> (Inl err, task, orch)
        | Inr a \<Rightarrow>
            let task1 = task\<lparr>assignedAgent := Some a\<rparr>
            in (case map_of (agents orch) a of
                  None \<Rightarrow> (Inl AGENT_NOT_FOUND, task1, orch)
                | Some agent \<Rightarrow>
                    if contextRequirement task1 > contextLimit agent
                    then (Inl CONTEXT_LIMIT_EXCEEDED, task1, orch)
                    else (Inr (), task1,
                          orch\<lparr>taskQueue := taskQueue orch @ [task1],
                               orch_events := orch_events orch @ [(''task.assigned'', task_id task1)]\<rparr>)))"

text \<open>The first entry, in list order, whose score no entry exceeds.\<close>

fun first_best :: "(PersonaType \<times> int) list \<Rightarrow> (PersonaType \<times> int) option" where
  "first_best [] = None"
| "first_best (entry # entries) =
     (case first_best entries of
        None \<Rightarrow> Some entry
      | Some best \<Rightarrow> if snd best > snd entry then Some best else Some entry)"

text \<open>The condition under which the claim expects \<open>NoEligibleWorker\<close>: errored workers
  set aside, no worker scores above zero.\<close>

definition no_eligible_worker :: "(PersonaType \<times> Agent) list \<Rightarrow> Task \<Rightarrow> bool" where
  "no_eligible_worker ags task =
     list_all (\<lambda>(p, agent). agent_status agent = Error
                  \<or> agent_score (fst (analyzeTaskRequirements task)) agent \<le> 0) ags"

text \<open>What selection reads of an agent and of a task.\<close>

definition same_capabilities :: "(PersonaType \<times> Agent) \<Rightarrow> (PersonaType \<times> Agent) \<Rightarrow> bool" where
  "same_capabilities x y =
     (fst x = fst y \<and> specializations (snd x) = specializations (snd y)
      \<and> agent_status (snd x) = agent_status (snd y)
      \<and> contextUsage (snd x) = contextUsage (snd y)
      \<and> contextLimit (snd x) = contextLimit (snd y))"

definition same_text :: "Task \<Rightarrow> Task \<Rightarrow> bool" where
  "same_text s t =
     (title s = title t \<and> description s = description t
      \<and> acceptanceCriteria s = acceptanceCriteria t)"

text \<open>\<open>initializeAgents\<close>.  The identifier of an agent (which embeds the clock) and its
  specializations are parameters.\<close>

fun getAgentDisplayName :: "PersonaType \<Rightarrow> string" where
  "getAgentDisplayName RequirementsAnalyst = ''Requirements Analyst Master''"
| "getAgentDisplayName UiUxDesigner = ''UI/UX Designer Master''"
| "getAgentDisplayName FrontendDeveloper = ''Frontend Developer Master''"
| "getAgentDisplayName BackendArchitect = ''Backend Architect Master''"
| "getAgentDisplayName QaEngineer = ''QA Engineer Master''"
| "getAgentDisplayName SecurityAnalyst = ''Security Analyst Master''"
| "getAgentDisplayName TechnicalWriter = ''Technical Writer Master''"
| "getAgentDisplayName DevopsEngineer = ''DevOps Engineer Master''"

fun getPersonaContextLimit :: "PersonaType \<Rightarrow> rat" where
  "getPersonaContextLimit RequirementsAnalyst = 30"
| "getPersonaContextLimit UiUxDesigner = 25"
| "getPersonaContextLimit FrontendDeveloper = 35"
| "getPersonaContextLimit BackendArchitect = 35"
| "getPersonaContextLimit QaEngineer = 30"
| "getPersonaContextLimit SecurityAnalyst = 25"
| "getPersonaContextLimit TechnicalWriter = 20"
| "getPersonaContextLimit DevopsEngineer = 30"

definition initializeAgents ::
  "(PersonaType \<Rightarrow> string) \<Rightarrow> (PersonaType \<Rightarrow> string list) \<Rightarrow> (PersonaType \<times> Agent) list" where
  "initializeAgents ident specs =
     map (\<lambda>p. (p, \<lparr>agent_id = ident p, agent_name = getAgentDisplayName p, agent_persona = p,
                    specializations = specs p, contextLimit = getPersonaContextLimit p,
                    agent_status = Idle, currentTask = None, contextUsage = 0\<rparr>))
         personas"

text \<open>An example roster: one specialization per persona, taken from the keys of the
  keyword table.\<close>

fun example_specializations :: "PersonaType \<Rightarrow> string list" where
  "example_specializations RequirementsAnalyst = [''stakeholder-analysis'', ''user-story-creation'']"
| "example_specializations UiUxDesigner = [''user-experience-design'', ''interface-design'']"
| "example_specializations FrontendDeveloper = [''react-development'', ''typescript'']"
| "example_specializations BackendArchitect = [''api-design'', ''database-architecture'']"
| "example_specializations QaEngineer = [''test-automation'']"
| "example_specializations SecurityAnalyst = [''security-auditing'']"
| "example_specializations TechnicalWriter = [''documentation'']"
| "example_specializations DevopsEngineer = [''ci-cd-pipelines'']"

definition roster :: "(PersonaType \<times> Agent) list" where
  "roster = initializeAgents (\<lambda>p. ''agent'') example_specializations"

text \<open>The roster with the first agent errored and every other agent working with its
  context used up to its limit.\<close>

definition saturated :: "PersonaType \<times> Agent \<Rightarrow> PersonaType \<times> Agent" where
  "saturated entry =
     (fst entry,
      (snd entry)\<lparr>agent_status := (if fst entry = RequirementsAnalyst then Error else Working),
                   contextUsage := (if fst entry = RequirementsAnalyst then 0
                                    else contextLimit (snd entry))\<rparr>)"

definition busy_orchestrator :: orchestrator where
  "busy_orchestrator =
     \<lparr>agents = map saturated roster, taskQueue = [], isRunning = True, orch_events = []\<rparr>"

definition polish_task :: Task where
  "polish_task =
     \<lparr>task_id = Some ''T-1'', title = Some ''Polish'', description = ''Tidy up'',
      task_status = TaskPending, task_priority = MediumPriority, assignedAgent = None,
      dependencies = [], contextRequirement = 10, acceptanceCriteria = []\<rparr>"

text \<open>The same roster created at another time, and the same task text submitted under
  another identity and priority.\<close>

definition later_roster :: "(PersonaType \<times> Agent) list" where
  "later_roster = initializeAgents (\<lambda>p. ''agent-later'') example_specializations"

definition polish_task_again :: Task where
  "polish_task_again = polish_task\<lparr>task_id := Some ''T-2'', task_priority := HighPriority\<rparr>"

section \<open>Properties of the risk assessment\<close>

lemma getRiskScore_pos: "0 < getRiskScore l"
  by (cases l) simp_all

lemma check_rules_mono:
  "check_rules rules command sc fs lv = (sc', fs', lv') \<Longrightarrow> sc \<le> sc'"
proof (induction rules arbitrary: sc fs lv)
  case Nil
  then show ?case by simp
next
  case (Cons rule rules)
  show ?case
  proof (cases "test (rule_pattern rule) command")
    case True
    with Cons.prems have "sc + getRiskScore (rule_riskLevel rule) \<le> sc'"
      by (auto dest: Cons.IH)
    with getRiskScore_pos [of "rule_riskLevel rule"] show ?thesis by linarith
  next
    case False
    with Cons.prems show ?thesis by (auto dest: Cons.IH)
  qed
qed

lemma check_rules_level:
  "check_rules rules command sc fs lv = (sc', fs', lv') \<Longrightarrow> 0 \<le> sc \<Longrightarrow>
   lv = Low \<or> getRiskScore lv \<le> sc \<Longrightarrow> lv' = Low \<or> getRiskScore lv' \<le> sc'"
proof (induction rules arbitrary: sc fs lv)
  case Nil
  then show ?case by simp
next
  case (Cons rule rules)
  show ?case
  proof (cases "test (rule_pattern rule) command")
    case True
    let ?g = "getRiskScore (rule_riskLevel rule)"
    let ?lv = "if getRiskScore lv < ?g then rule_riskLevel rule else lv"
    from True Cons.prems(1)
    have run: "check_rules rules command (sc + ?g) (fs @ [rule_reason rule]) ?lv = (sc', fs', lv')"
      by simp
    have pos: "0 \<le> sc + ?g"
      using Cons.prems(2) getRiskScore_pos [of "rule_riskLevel rule"] by linarith
    have "?lv = Low \<or> getRiskScore ?lv \<le> sc + ?g"
      using Cons.prems(2,3) getRiskScore_pos [of "rule_riskLevel rule"] by auto
    from Cons.IH [OF run pos this] show ?thesis .
  next
    case False
    with Cons.prems show ?thesis by (auto dest: Cons.IH)
  qed
qed

lemma check_rules_dominates:
  "check_rules rules command sc fs lv = (sc', fs', lv') \<Longrightarrow> 0 \<le> sc \<Longrightarrow>
   rule \<in> set rules \<Longrightarrow> test (rule_pattern rule) command \<Longrightarrow>
   getRiskScore (rule_riskLevel rule) \<le> sc'"
proof (induction rules arbitrary: sc fs lv)
  case Nil
  then show ?case by simp
next
  case (Cons r rules)
  show ?case
  proof (cases "test (rule_pattern r) command")
    case True
    let ?g = "getRiskScore (rule_riskLevel r)"
    let ?lv = "if getRiskScore lv < ?g then rule_riskLevel r else lv"
    from True Cons.prems(1)
    have run: "check_rules rules command (sc + ?g) (fs @ [rule_reason r]) ?lv = (sc', fs', lv')"
      by simp
    have pos: "0 \<le> sc + ?g"
      using Cons.prems(2) getRiskScore_pos [of "rule_riskLevel r"] by linarith
    show ?thesis
    proof (cases "rule = r")
      case True
      from check_rules_mono [OF run] Cons.prems(2) True show ?thesis by simp
    next
      case False
      with Cons.prems(3) have "rule \<in> set rules" by simp
      from Cons.IH [OF run pos this Cons.prems(4)] show ?thesis .
    qed
  next
    case False
    with Cons.prems have "rule \<in> set rules" by auto
    moreover from False Cons.prems(1)
    have "check_rules rules command sc fs lv = (sc', fs', lv')" by simp
    ultimately show ?thesis using Cons.IH Cons.prems(2,4) by blast
  qed
qed

text \<open>The contextual factors only add to the score; the level they return is the
  incoming one unless the production factor fires, which puts the score at 30 or more.\<close>

lemma production_factor_effect:
  "production_factor context (sc, fs, lv) = (sc', fs', lv') \<Longrightarrow> 0 \<le> sc \<Longrightarrow>
   sc \<le> sc' \<and> (lv' = lv \<or> 30 \<le> sc')"
  by (auto split: if_splits)

lemma database_factor_effect:
  "database_factor context (sc, fs, lv) = (sc', fs', lv') \<Longrightarrow> sc \<le> sc' \<and> lv' = lv"
  by (auto split: if_splits)

lemma privilege_factor_effect:
  "privilege_factor command (sc, fs, lv) = (sc', fs', lv') \<Longrightarrow> sc \<le> sc' \<and> lv' = lv"
  by (auto split: if_splits)

lemma assessRisk_unfold:
  assumes run: "check_rules rules command 0 [] Low = (sc0, fs0, lv0)"
  shows "\<exists>sc fs lv. assessRisk rules command context = final_level (sc, fs, lv) \<and> sc0 \<le> sc \<and>
           (lv = lv0 \<or> 30 \<le> sc)"
proof -
  from check_rules_mono [OF run] have nonneg: "0 \<le> sc0" .
  obtain sc1 fs1 lv1 where p: "production_factor context (sc0, fs0, lv0) = (sc1, fs1, lv1)"
    using prod_cases3 by blast
  obtain sc2 fs2 lv2 where d: "database_factor context (sc1, fs1, lv1) = (sc2, fs2, lv2)"
    using prod_cases3 by blast
  obtain sc3 fs3 lv3 where v: "privilege_factor command (sc2, fs2, lv2) = (sc3, fs3, lv3)"
    using prod_cases3 by blast
  have "assessRisk rules command context = final_level (sc3, fs3, lv3)"
    unfolding assessRisk_def run p d v ..
  moreover have "sc0 \<le> sc3 \<and> (lv3 = lv0 \<or> 30 \<le> sc3)"
    using production_factor_effect [OF p nonneg] database_factor_effect [OF d]
      privilege_factor_effect [OF v] by auto
  ultimately show ?thesis by blast
qed

lemma final_level_score: "score (final_level (sc, fs, lv)) = sc"
  by simp

lemma final_level_level:
  "lv = Low \<or> 20 \<le> sc \<Longrightarrow> level (final_level (sc, fs, lv)) = score_level sc"
  by (auto simp: score_level_def)

lemma assessRisk_facts:
  "\<exists>sc fs lv. assessRisk rules command context = final_level (sc, fs, lv) \<and>
     (lv = Low \<or> 20 \<le> sc) \<and>
     (\<forall>rule \<in> set rules. test (rule_pattern rule) command \<longrightarrow> getRiskScore (rule_riskLevel rule) \<le> sc)"
proof -
  obtain sc0 fs0 lv0 where run: "check_rules rules command 0 [] Low = (sc0, fs0, lv0)"
    by (cases "check_rules rules command 0 [] Low") auto
  from assessRisk_unfold [OF run] obtain sc fs lv where
    a: "assessRisk rules command context = final_level (sc, fs, lv)" and le: "sc0 \<le> sc"
    and lv: "lv = lv0 \<or> 30 \<le> sc" by blast
  from check_rules_level [OF run] have lv0: "lv0 = Low \<or> getRiskScore lv0 \<le> sc0" by simp
  have "lv = Low \<or> 20 \<le> sc"
  proof (cases "lv0 = Low \<or> 30 \<le> sc")
    case True
    with lv show ?thesis by auto
  next
    case False
    with lv0 have "getRiskScore lv0 \<le> sc0" and "lv0 \<noteq> Low" by auto
    then have "30 \<le> sc0" by (cases lv0) auto
    with le False show ?thesis by simp
  qed
  moreover have "\<forall>rule \<in> set rules. test (rule_pattern rule) command \<longrightarrow>
      getRiskScore (rule_riskLevel rule) \<le> sc"
    using check_rules_dominates [OF run] le by fastforce
  ultimately show ?thesis using a by blast
qed

text \<open>
  Claim C3, as the code has it: the level \<open>assessRisk\<close> returns is always the level
  the thresholds give for the aggregate score (80 and above critical, 50 and above
  high, 20 and above medium, otherwise low); no matching rule has a higher level than
  the returned one, and a command matching a critical rule is assessed critical.  The
  returned level can be above the level of the highest matching rule.
\<close>

theorem assessRisk_level_is_score_level:
  "level (assessRisk rules command context) = score_level (score (assessRisk rules command context))
   \<and> (\<forall>rule \<in> set (matching_rules rules command).
         getRiskScore (rule_riskLevel rule) \<le> getRiskScore (level (assessRisk rules command context)))
   \<and> ((\<exists>rule \<in> set (matching_rules rules command). rule_riskLevel rule = Critical)
        \<longrightarrow> level (assessRisk rules command context) = Critical)"
proof -
  from assessRisk_facts [of rules command "context"] obtain sc fs lv where
    a: "assessRisk rules command context = final_level (sc, fs, lv)"
    and lv: "lv = Low \<or> 20 \<le> sc"
    and dom: "\<forall>rule \<in> set rules. test (rule_pattern rule) command \<longrightarrow>
                getRiskScore (rule_riskLevel rule) \<le> sc" by blast
  have l: "level (assessRisk rules command context) = score_level sc"
    using a final_level_level [OF lv] by simp
  have s: "score (assessRisk rules command context) = sc"
    using a by simp
  have d: "getRiskScore (rule_riskLevel rule) \<le> getRiskScore (score_level sc)"
    if "rule \<in> set (matching_rules rules command)" for rule
  proof -
    from that dom have "getRiskScore (rule_riskLevel rule) \<le> sc"
      by (simp add: matching_rules_def)
    then show ?thesis by (cases "rule_riskLevel rule") (auto simp: score_level_def)
  qed
  have c: "score_level sc = Critical"
    if "rule \<in> set (matching_rules rules command)" "rule_riskLevel rule = Critical" for rule
  proof -
    from that dom have "100 \<le> sc" by (auto simp: matching_rules_def)
    then show ?thesis by (simp add: score_level_def)
  qed
  show ?thesis using l s d c by auto
qed

lemma rm_rf_matches:
  "map rule_riskLevel (matching_rules permissionRules ''rm -rf /'') = [Critical]"
  by (simp add: matching_rules_def permissionRules_def canonicalize_def is_space_def
      is_line_terminator_def)

lemma rm_rf_score:
  "score (assessRisk permissionRules ''rm -rf /'' ''production deployment'') = 130"
  by (simp add: assessRisk_def permissionRules_def canonicalize_def is_space_def
      is_line_terminator_def)

theorem assessRisk_level_is_score_level_witness:
  "level (assessRisk permissionRules ''rm -rf /'' ''production deployment'') = Critical
   \<and> score (assessRisk permissionRules ''rm -rf /'' ''production deployment'') = 130
   \<and> map rule_riskLevel (matching_rules permissionRules ''rm -rf /'') = [Critical]"
proof -
  from rm_rf_matches
  have "\<exists>rule \<in> set (matching_rules permissionRules ''rm -rf /''). rule_riskLevel rule = Critical"
    by (cases "matching_rules permissionRules ''rm -rf /''") auto
  with assessRisk_level_is_score_level
         [of permissionRules "''rm -rf /''" "''production deployment''"]
  have "level (assessRisk permissionRules ''rm -rf /'' ''production deployment'') = Critical"
    by blast
  with rm_rf_matches rm_rf_score show ?thesis by simp
qed

text \<open>
  Claim C3 as stated fails: \<open>sudo rm x\<close> matches one rule only, of level high, and
  scores 60 for it plus 25 for \<open>sudo\<close>; the returned level is critical, where the
  highest matching rule is high.
\<close>

lemma sudo_rm_matches:
  "map rule_riskLevel (matching_rules permissionRules ''sudo rm x'') = [High]"
  by (simp add: matching_rules_def permissionRules_def canonicalize_def is_space_def
      is_line_terminator_def)

lemma sudo_rm_assessed:
  "level (assessRisk permissionRules ''sudo rm x'' '''') = Critical
   \<and> score (assessRisk permissionRules ''sudo rm x'' '''') = 85"
  by (simp add: assessRisk_def permissionRules_def canonicalize_def is_space_def
      is_line_terminator_def)

theorem highest_rule_does_not_win:
  "level (assessRisk permissionRules ''sudo rm x'' '''') = Critical
   \<and> score (assessRisk permissionRules ''sudo rm x'' '''') = 85
   \<and> map rule_riskLevel (matching_rules permissionRules ''sudo rm x'') = [High]
   \<and> spec_level permissionRules ''sudo rm x'' '''' = High
   \<and> level (assessRisk permissionRules ''sudo rm x'' '''') \<noteq> spec_level permissionRules ''sudo rm x'' ''''"
  using sudo_rm_assessed sudo_rm_matches by (simp add: spec_level_def)

section \<open>Properties of the approval gate\<close>

lemma permissionRules_not_low:
  "rule \<in> set permissionRules \<Longrightarrow> rule_riskLevel rule \<noteq> Low"
  by (auto simp: permissionRules_def)

lemma low_level_no_match:
  assumes low: "level (assessRisk permissionRules command context) = Low"
  shows "find (\<lambda>rule. test (rule_pattern rule) command) permissionRules = None"
proof (rule ccontr)
  assume "find (\<lambda>rule. test (rule_pattern rule) command) permissionRules \<noteq> None"
  then obtain rule where r: "rule \<in> set permissionRules" and m: "test (rule_pattern rule) command"
    by (auto simp: find_None_iff)
  from assessRisk_facts [of permissionRules command "context"] obtain sc fs lv where
    a: "assessRisk permissionRules command context = final_level (sc, fs, lv)"
    and lv: "lv = Low \<or> 20 \<le> sc"
    and dominated: "\<forall>rule \<in> set permissionRules. test (rule_pattern rule) command \<longrightarrow>
                getRiskScore (rule_riskLevel rule) \<le> sc" by blast
  from dominated r m have "getRiskScore (rule_riskLevel rule) \<le> sc" by blast
  moreover from permissionRules_not_low [OF r] have "30 \<le> getRiskScore (rule_riskLevel rule)"
    by (cases "rule_riskLevel rule") auto
  ultimately have "20 \<le> sc" by linarith
  with a low show False by (auto split: if_splits)
qed

lemma low_level_not_required:
  "level (assessRisk permissionRules command context) = Low \<Longrightarrow>
   \<not> requiresApproval permissionRules command (level (assessRisk permissionRules command context))"
  by (simp add: requiresApproval_def low_level_no_match)

lemma npm_test_rules: "check_rules permissionRules ''npm test'' 0 [] Low = (0, [], Low)"
  by (simp add: permissionRules_def canonicalize_def is_space_def is_line_terminator_def)

lemma npm_test_low: "level (assessRisk permissionRules ''npm test'' ''running tests'') = Low"
  by (simp add: assessRisk_def npm_test_rules)

text \<open>
  Claim C9: an operation assessed at level low is approved at once by
  \<open>requestPermission\<close>, with a response attributed to \<open>system\<close>, no event emitted
  and no timer armed; \<open>npm test\<close> in the context \<open>running tests\<close> is such an operation.
\<close>

theorem low_risk_auto_approved:
  "(level (assessRisk permissionRules command context) = Low \<longrightarrow>
      fst (requestPermission e g agent command context) = Inr (Immediate (autoApproval (now e)))
      \<and> respondedBy (autoApproval (now e)) = ''system''
      \<and> approved (autoApproval (now e))
      \<and> events (snd (requestPermission e g agent command context)) = events g
      \<and> timers (snd (requestPermission e g agent command context)) = timers g)
   \<and> level (assessRisk permissionRules ''npm test'' ''running tests'') = Low
   \<and> fst (requestPermission e g agent ''npm test'' ''running tests'')
        = Inr (Immediate (autoApproval (now e)))"
proof -
  have general: "fst (requestPermission e g agent c x) = Inr (Immediate (autoApproval (now e)))
      \<and> events (snd (requestPermission e g agent c x)) = events g
      \<and> timers (snd (requestPermission e g agent c x)) = timers g"
    if "level (assessRisk permissionRules c x) = Low" for c x
    using low_level_not_required [OF that]
    by (simp add: requestPermission_def autoApproval_def)
  from general [OF npm_test_low] general npm_test_low show ?thesis
    by (simp add: autoApproval_def)
qed

theorem low_risk_auto_approved_witness:
  "level (assessRisk permissionRules ''npm test'' ''running tests'') = Low
   \<and> fst (requestPermission env0 empty_gate FrontendDeveloper ''npm test'' ''running tests'')
       = Inr (Immediate \<lparr>approved = True, respondedAt = 1000,
                          reason = Some ''Auto-approved: low risk operation'',
                          respondedBy = ''system''\<rparr>)
   \<and> events (snd (requestPermission env0 empty_gate FrontendDeveloper ''npm test'' ''running tests'')) = []"
  using low_risk_auto_approved
          [of "''npm test''" "''running tests''" env0 empty_gate FrontendDeveloper]
  by (simp add: autoApproval_def env0_def empty_gate_def)

text \<open>
  Claim C10: when no approval is required, \<open>requestPermission\<close> returns the approved
  response and leaves the pending map, the history, the persisted files, the timers
  and the emitted events as they were; the one trace it leaves is a line in the log.
\<close>

theorem auto_approval_leaves_gate_unchanged:
  assumes "\<not> requiresApproval permissionRules command
               (level (assessRisk permissionRules command context))"
  shows "snd (requestPermission e g agent command context)
           = g\<lparr>gate_log := gate_log g @ [''Operation auto-approved'']\<rparr>
         \<and> pendingRequests (snd (requestPermission e g agent command context)) = pendingRequests g
         \<and> permissionHistory (snd (requestPermission e g agent command context)) = permissionHistory g
         \<and> persisted (snd (requestPermission e g agent command context)) = persisted g
         \<and> timers (snd (requestPermission e g agent command context)) = timers g
         \<and> events (snd (requestPermission e g agent command context)) = events g
         \<and> fst (requestPermission e g agent command context) = Inr (Immediate (autoApproval (now e)))"
  using assms by (simp add: requestPermission_def autoApproval_def)

theorem auto_approval_leaves_gate_unchanged_witness:
  "\<not> requiresApproval permissionRules ''npm test''
        (level (assessRisk permissionRules ''npm test'' ''running tests''))
   \<and> snd (requestPermission env0 empty_gate FrontendDeveloper ''npm test'' ''running tests'')
       = \<lparr>pendingRequests = Map.empty, permissionHistory = Map.empty,
          detached = Map.empty, persisted = Map.empty, timers = [],
          events = [], gate_log = [''Operation auto-approved'']\<rparr>"
proof -
  have n: "\<not> requiresApproval permissionRules ''npm test''
        (level (assessRisk permissionRules ''npm test'' ''running tests''))"
    using low_level_not_required [OF npm_test_low] .
  from auto_approval_leaves_gate_unchanged [OF n, of env0 empty_gate FrontendDeveloper] n
  show ?thesis by (simp add: empty_gate_def)
qed

lemma cancelRequest_effect:
  assumes "pendingRequests g rid = Some request"
  shows "pendingRequests (snd (cancelRequest e g rid why)) rid = None
       \<and> permissionHistory (snd (cancelRequest e g rid why)) rid
           = Some \<lparr>approved = False, respondedAt = now e, reason = Some why, respondedBy = ''system''\<rparr>
       \<and> detached (snd (cancelRequest e g rid why)) rid
           = Some (request\<lparr>status := Expired,
                response := Some \<lparr>approved = False, respondedAt = now e, reason = Some why,
                                   respondedBy = ''system''\<rparr>\<rparr>)"
  using assms by (simp add: cancelRequest_def Let_def)

text \<open>
  Claim C5: when the timer of a pending request fires and no response has been
  recorded, the request leaves the pending map with status \<open>expired\<close>, and the next
  poll of the waiting caller rejects with the reason \<open>Request timeout\<close>; before the
  timer fired the caller was still waiting.  (How long the timer takes is outside the
  model.)
\<close>

theorem timeout_expires_pending_request:
  assumes pending: "pendingRequests g rid = Some request"
    and st: "status request = Pending"
    and unanswered: "permissionHistory g rid = None"
  shows "checkResponse g rid = None
       \<and> pendingRequests (snd (timeoutFired e g rid)) rid = None
       \<and> (\<exists>r. detached (snd (timeoutFired e g rid)) rid = Some r \<and> status r = Expired
              \<and> map_option approved (response r) = Some False
              \<and> map_option reason (response r) = Some (Some ''Request timeout''))
       \<and> checkResponse (snd (timeoutFired e g rid)) rid
           = Some (Rejected (''Permission denied for request '' @ rid) (Some ''Request timeout''))
       \<and> waitForResponse (g # snd (timeoutFired e g rid) # later) rid
           = Some (Rejected (''Permission denied for request '' @ rid) (Some ''Request timeout''))"
proof -
  let ?g0 = "g\<lparr>timers := disarm rid (timers g)\<rparr>"
  have p0: "pendingRequests ?g0 rid = Some request" using pending by simp
  have fired: "timeoutFired e g rid = cancelRequest e ?g0 rid ''Request timeout''"
    using pending by (simp add: timeoutFired_def Let_def dom_def)
  have before: "checkResponse g rid = None"
    using pending st unanswered by (simp add: checkResponse_def)
  note eff = cancelRequest_effect [OF p0, of e "''Request timeout''"]
  have after: "checkResponse (snd (timeoutFired e g rid)) rid
           = Some (Rejected (''Permission denied for request '' @ rid) (Some ''Request timeout''))"
    unfolding fired using eff by (simp add: checkResponse_def)
  show ?thesis
    using before after eff unfolding fired by simp
qed

lemma sudo_rm_requires_approval:
  "requiresApproval permissionRules ''sudo rm x''
     (level (assessRisk permissionRules ''sudo rm x'' []))"
  using sudo_rm_assessed by (simp add: requiresApproval_def)

lemma request1_created:
  "requestPermission env0 empty_gate BackendArchitect ''sudo rm x'' []
     = (Inr (Awaiting ''4f1c0a9b3e7d2a68''), gate1)"
  using sudo_rm_requires_approval
  by (simp add: gate1_def requestPermission_def Let_def env0_def)

lemma gate1_pending:
  "pendingRequests gate1 ''4f1c0a9b3e7d2a68'' = Some request1
   \<and> permissionHistory gate1 ''4f1c0a9b3e7d2a68'' = None"
  using sudo_rm_requires_approval sudo_rm_assessed
  by (simp add: gate1_def requestPermission_def Let_def env0_def empty_gate_def request1_def)

theorem timeout_expires_pending_request_witness:
  "pendingRequests gate1 ''4f1c0a9b3e7d2a68'' = Some request1
   \<and> status request1 = Pending
   \<and> permissionHistory gate1 ''4f1c0a9b3e7d2a68'' = None
   \<and> pendingRequests (snd (timeoutFired env0 gate1 ''4f1c0a9b3e7d2a68'')) ''4f1c0a9b3e7d2a68'' = None
   \<and> checkResponse (snd (timeoutFired env0 gate1 ''4f1c0a9b3e7d2a68'')) ''4f1c0a9b3e7d2a68''
       = Some (Rejected ''Permission denied for request 4f1c0a9b3e7d2a68'' (Some ''Request timeout''))"
proof -
  have p: "pendingRequests gate1 ''4f1c0a9b3e7d2a68'' = Some request1"
    and h: "permissionHistory gate1 ''4f1c0a9b3e7d2a68'' = None"
    using gate1_pending by simp_all
  have s: "status request1 = Pending" by (simp add: request1_def)
  from timeout_expires_pending_request [OF p s h, of env0] p s h
  show ?thesis by simp
qed

text \<open>
  A request that has been answered, or whose timer has fired, is no longer in the
  pending map: a later \<open>respondToRequest\<close> for it fails with \<open>REQUEST_NOT_FOUND\<close> and
  changes nothing.  The test of the request's status, which would give
  \<open>REQUEST_ALREADY_RESOLVED\<close>, is never reached for it.
\<close>

lemma resolved_request_is_forgotten:
  assumes "pendingRequests g rid = Some request" "status request = Pending"
  shows "respondToRequest e2 (snd (respondToRequest e g rid a w u)) rid a2 w2 u2
           = (Inl REQUEST_NOT_FOUND, snd (respondToRequest e g rid a w u))"
    and "respondToRequest e2 (snd (timeoutFired e g rid)) rid a2 w2 u2
           = (Inl REQUEST_NOT_FOUND, snd (timeoutFired e g rid))"
  using assms
  by (simp_all add: respondToRequest_def timeoutFired_def cancelRequest_def Let_def dom_def)

text \<open>
  Claim C1 at a concrete request: created by \<open>requestPermission\<close>, approved by a first
  \<open>respondToRequest\<close>; the second \<open>respondToRequest\<close> fails with
  \<open>REQUEST_NOT_FOUND\<close>, not \<open>REQUEST_ALREADY_RESOLVED\<close>, and leaves the gate (with the
  stored first outcome) as it was.  The same holds for a response that arrives after
  the timer of the request has fired.
\<close>

theorem second_response_is_not_found:
  "fst (requestPermission env0 empty_gate BackendArchitect ''sudo rm x'' [])
      = Inr (Awaiting ''4f1c0a9b3e7d2a68'')
   \<and> fst (respondToRequest env0 gate1 ''4f1c0a9b3e7d2a68'' True (Some ''ok'') ''user'') = Inr ()
   \<and> respondToRequest env0
        (snd (respondToRequest env0 gate1 ''4f1c0a9b3e7d2a68'' True (Some ''ok'') ''user''))
        ''4f1c0a9b3e7d2a68'' False None ''user''
      = (Inl REQUEST_NOT_FOUND,
         snd (respondToRequest env0 gate1 ''4f1c0a9b3e7d2a68'' True (Some ''ok'') ''user''))
   \<and> fst (timeoutFired env0 gate1 ''4f1c0a9b3e7d2a68'') = Inr ()
   \<and> respondToRequest env0 (snd (timeoutFired env0 gate1 ''4f1c0a9b3e7d2a68''))
        ''4f1c0a9b3e7d2a68'' True None ''user''
      = (Inl REQUEST_NOT_FOUND, snd (timeoutFired env0 gate1 ''4f1c0a9b3e7d2a68''))"
proof -
  have p: "pendingRequests gate1 ''4f1c0a9b3e7d2a68'' = Some request1"
    using gate1_pending by simp
  have s: "status request1 = Pending" by (simp add: request1_def)
  have ok1: "fst (respondToRequest env0 gate1 ''4f1c0a9b3e7d2a68'' True (Some ''ok'') ''user'') = Inr ()"
    using p s by (simp add: respondToRequest_def Let_def env0_def)
  have ok2: "fst (timeoutFired env0 gate1 ''4f1c0a9b3e7d2a68'') = Inr ()"
    using p by (simp add: timeoutFired_def cancelRequest_def Let_def env0_def dom_def)
  show ?thesis
    using request1_created ok1 ok2 resolved_request_is_forgotten [OF p s] by simp
qed

section \<open>Properties of the resource ledger\<close>

lemma getContextCapacity_values:
  "getContextCapacity RequirementsAnalyst = 9600"
  "getContextCapacity UiUxDesigner = 7200"
  "getContextCapacity FrontendDeveloper = 8800"
  "getContextCapacity BackendArchitect = 10400"
  "getContextCapacity QaEngineer = 8000"
  "getContextCapacity SecurityAnalyst = 6400"
  "getContextCapacity TechnicalWriter = 5600"
  "getContextCapacity DevopsEngineer = 8000"
  by (simp_all add: getContextCapacity_def js_round_def floor_eq_iff)

lemma getContextCapacity_pos: "0 < getContextCapacity p"
  by (cases p) (simp_all add: getContextCapacity_values)

lemma typeSizes_nonneg: "0 \<le> typeSizes t"
  by (cases t) simp_all

lemma calculateItemSize_nonneg: "0 \<le> calculateItemSize item"
  by (auto simp: calculateItemSize_def js_round_def typeSizes_nonneg split: option.splits
      intro!: add_nonneg_nonneg)

lemma percentage_mono: "u \<le> v \<Longrightarrow> percentage u p \<le> percentage v p"
  using getContextCapacity_pos [of p]
  by (simp add: percentage_def divide_right_mono)

lemma splice_path_Some:
  "splice_path ip xs = Some (r, ys) \<Longrightarrow> r \<in> set xs \<and> path r = ip \<and> set ys \<subseteq> set xs"
  by (induction xs arbitrary: ys) (auto split: if_splits option.splits)

lemma shrinks_refl: "shrinks L L"
  by (simp add: shrinks_def option.rel_refl)

lemma shrinks_trans: "shrinks L L1 \<Longrightarrow> shrinks L1 L2 \<Longrightarrow> shrinks L L2"
  unfolding shrinks_def
proof (intro conjI allI)
  fix p
  assume a: "limits (projectContext L1) = limits (projectContext L) \<and>
    (\<forall>p. rel_option (\<lambda>w w'. set (items w') \<subseteq> set (items w) \<and> currentUsage w' \<le> currentUsage w)
          (contextWindows L p) (contextWindows L1 p))"
    and b: "limits (projectContext L2) = limits (projectContext L1) \<and>
    (\<forall>p. rel_option (\<lambda>w w'. set (items w') \<subseteq> set (items w) \<and> currentUsage w' \<le> currentUsage w)
          (contextWindows L1 p) (contextWindows L2 p))"
  from a b show "rel_option (\<lambda>w w'. set (items w') \<subseteq> set (items w) \<and> currentUsage w' \<le> currentUsage w)
          (contextWindows L p) (contextWindows L2 p)"
    by (cases "contextWindows L p"; cases "contextWindows L1 p"; cases "contextWindows L2 p")
       (force dest!: spec [of _ p])+
qed auto

lemma shrinks_invariants:
  assumes "shrinks L L'" "within_ceiling L" "sizes_nonneg L"
  shows "within_ceiling L' \<and> sizes_nonneg L'"
proof -
  have "percentage (currentUsage w') p \<le> maxPercentage (limits (projectContext L'))
        \<and> (\<forall>i \<in> set (items w'). 0 \<le> item_size i)"
    if w': "contextWindows L' p = Some w'" for p w'
  proof -
    from assms(1) w' obtain w where w: "contextWindows L p = Some w"
      and sub: "set (items w') \<subseteq> set (items w)" and le: "currentUsage w' \<le> currentUsage w"
      and lim: "limits (projectContext L') = limits (projectContext L)"
      unfolding shrinks_def by (cases "contextWindows L p") (auto dest!: spec [of _ p])
    from assms(2) w have "percentage (currentUsage w) p \<le> maxPercentage (limits (projectContext L))"
      by (simp add: within_ceiling_def)
    with percentage_mono [OF le, of p] lim
    have "percentage (currentUsage w') p \<le> maxPercentage (limits (projectContext L'))" by simp
    moreover from assms(3) w sub have "\<forall>i \<in> set (items w'). 0 \<le> item_size i"
      by (auto simp: sizes_nonneg_def)
    ultimately show ?thesis by simp
  qed
  then show ?thesis by (simp add: within_ceiling_def sizes_nonneg_def)
qed

lemma limits_updateTotalUsage [simp]:
  "limits (updateTotalUsage (set_agentUsage p v pc)) = limits pc"
  by (simp add: updateTotalUsage_def set_agentUsage_def)

lemma removeContext_shrinks:
  assumes "sizes_nonneg L"
  shows "shrinks L (snd (removeContext e L p ip))"
proof (cases "contextWindows L p")
  case None
  then show ?thesis by (simp add: removeContext_def shrinks_refl)
next
  case (Some w)
  show ?thesis
  proof (cases "splice_path ip (items w)")
    case None
    with Some show ?thesis by (simp add: removeContext_def shrinks_refl)
  next
    case (Some rys)
    obtain r ys where rys: "rys = (r, ys)" by (cases rys)
    from splice_path_Some Some rys have r: "r \<in> set (items w)" and ys: "set ys \<subseteq> set (items w)"
      by blast+
    from assms \<open>contextWindows L p = Some w\<close> r have "0 \<le> item_size r"
      by (auto simp: sizes_nonneg_def)
    with ys Some rys \<open>contextWindows L p = Some w\<close> show ?thesis
      by (auto simp: removeContext_def Let_def shrinks_def option.rel_refl)
  qed
qed

lemma remove_each_shrinks:
  "sizes_nonneg L \<Longrightarrow> shrinks L (snd (remove_each e L p ps))"
proof (induction ps arbitrary: L)
  case Nil
  then show ?case by (simp add: shrinks_refl)
next
  case (Cons ip ps)
  obtain res L1 where r: "removeContext e L p ip = (res, L1)" by (cases "removeContext e L p ip")
  from removeContext_shrinks [OF Cons.prems, of e p ip] r have s1: "shrinks L L1" by simp
  show ?case
  proof (cases res)
    case (Inl err)
    with r s1 show ?thesis by simp
  next
    case (Inr removed)
    from s1 Cons.prems have "sizes_nonneg L1"
      unfolding shrinks_def sizes_nonneg_def
      by (metis (no_types, lifting) option.rel_cases option.distinct(1) option.inject subsetD)
    from Cons.IH [OF this] have "shrinks L1 (snd (remove_each e L1 p ps))" .
    with s1 r Inr show ?thesis by (auto intro: shrinks_trans)
  qed
qed

lemma performAutomaticCleanup_shrinks:
  assumes "sizes_nonneg L"
  shows "shrinks L (snd (performAutomaticCleanup e L p required))"
proof (cases "contextWindows L p")
  case None
  then show ?thesis by (simp add: performAutomaticCleanup_def shrinks_refl)
next
  case (Some w)
  let ?ps = "itemsToRemove (sort_key (\<lambda>item. typePriority (item_type item)) (items w)) required 0"
  from remove_each_shrinks [OF assms, of e p ?ps]
  have "shrinks L (snd (remove_each e L p ?ps))" .
  then show ?thesis using Some
    by (auto simp: performAutomaticCleanup_def Let_def shrinks_def split: prod.splits sum.splits)
qed

lemma removeContext_succeeds:
  "persistOk e \<Longrightarrow> \<exists>removed. fst (removeContext e L p ip) = Inr removed"
  by (auto simp: removeContext_def Let_def split: option.splits prod.splits)

lemma remove_each_succeeds:
  "persistOk e \<Longrightarrow> fst (remove_each e L p ps) = Inr ()"
proof (induction ps arbitrary: L)
  case Nil
  then show ?case by simp
next
  case (Cons ip ps)
  from removeContext_succeeds [OF Cons.prems, of L p ip] obtain removed L1
    where "removeContext e L p ip = (Inr removed, L1)"
    by (cases "removeContext e L p ip") auto
  with Cons.IH [OF Cons.prems, of L1] show ?case by simp
qed

lemma performAutomaticCleanup_succeeds:
  "persistOk e \<Longrightarrow> fst (performAutomaticCleanup e L p required) = Inr ()"
proof (cases "contextWindows L p")
  case None
  then show ?thesis by (simp add: performAutomaticCleanup_def)
next
  case (Some w)
  assume ok: "persistOk e"
  let ?ps = "itemsToRemove (sort_key (\<lambda>item. typePriority (item_type item)) (items w)) required 0"
  from remove_each_succeeds [OF ok, of L p ?ps] obtain L1
    where "remove_each e L p ?ps = (Inr (), L1)"
    by (cases "remove_each e L p ?ps") auto
  with Some show ?thesis by (simp add: performAutomaticCleanup_def Let_def)
qed

lemma admit_window:
  assumes "contextWindows L p = Some w"
  shows "contextWindows (snd (admit e L p item sz up))
           = (contextWindows L)(p \<mapsto> w\<lparr>items := items w @ [item],
                                           currentUsage := currentUsage w + sz,
                                           lastUpdated := now e\<rparr>)
         \<and> limits (projectContext (snd (admit e L p item sz up))) = limits (projectContext L)"
  using assms by (simp add: admit_def Let_def)

lemma admit_succeeds:
  "contextWindows L p = Some w \<Longrightarrow> persistOk e \<Longrightarrow> fst (admit e L p item sz up) = Inr ()"
  by (simp add: admit_def Let_def)

lemma admit_invariants:
  assumes inv: "within_ceiling L" "sizes_nonneg L"
    and w: "contextWindows L p = Some w"
    and fits: "percentage (currentUsage w + sz) p \<le> maxPercentage (limits (projectContext L))"
    and sz: "0 \<le> item_size item"
  shows "within_ceiling (snd (admit e L p item sz up)) \<and> sizes_nonneg (snd (admit e L p item sz up))"
proof -
  let ?L = "snd (admit e L p item sz up)"
  let ?w = "w\<lparr>items := items w @ [item], currentUsage := currentUsage w + sz,
                 lastUpdated := now e\<rparr>"
  from admit_window [OF w, of e item sz up]
  have cw: "contextWindows ?L = (contextWindows L)(p \<mapsto> ?w)"
    and lim: "limits (projectContext ?L) = limits (projectContext L)" by simp_all
  have each: "percentage (currentUsage v) q \<le> maxPercentage (limits (projectContext ?L))
        \<and> (\<forall>i \<in> set (items v). 0 \<le> item_size i)"
    if v: "contextWindows ?L q = Some v" for q v
  proof (cases "q = p")
    case True
    with v cw have "v = ?w" by simp
    moreover from inv(2) w have "\<forall>i \<in> set (items w). 0 \<le> item_size i"
      by (simp add: sizes_nonneg_def)
    ultimately show ?thesis using fits sz lim True by auto
  next
    case False
    with v cw have "contextWindows L q = Some v" by simp
    with inv lim show ?thesis by (simp add: within_ceiling_def sizes_nonneg_def)
  qed
  show ?thesis unfolding within_ceiling_def sizes_nonneg_def using each by blast
qed

lemma addContext_invariants:
  assumes inv: "within_ceiling L" "sizes_nonneg L"
  shows "within_ceiling (snd (addContext e L p item)) \<and> sizes_nonneg (snd (addContext e L p item))"
proof (cases "contextWindows L p")
  case None
  with inv show ?thesis by (simp add: addContext_def)
next
  case (Some w)
  let ?sz = "calculateItemSize item"
  let ?item = "item\<lparr>item_size := ?sz\<rparr>"
  let ?up = "percentage (currentUsage w + ?sz) p"
  let ?max = "maxPercentage (limits (projectContext L))"
  have nonneg: "0 \<le> item_size ?item" by (simp add: calculateItemSize_nonneg)
  show ?thesis
  proof (cases "?up > ?max")
    case False
    then have fits: "?up \<le> ?max" by simp
    from False Some have "addContext e L p item = admit e L p ?item ?sz ?up"
      by (simp add: addContext_def Let_def)
    with admit_invariants [OF inv Some fits nonneg] show ?thesis by simp
  next
    case True
    obtain res L1 where c: "performAutomaticCleanup e L p ?sz = (res, L1)"
      by (cases "performAutomaticCleanup e L p ?sz")
    from performAutomaticCleanup_shrinks [OF inv(2), of e p ?sz] c have sh: "shrinks L L1" by simp
    from shrinks_invariants [OF sh inv] have inv1: "within_ceiling L1" "sizes_nonneg L1" by simp_all
    from sh have lim: "limits (projectContext L1) = limits (projectContext L)"
      by (simp add: shrinks_def)
    show ?thesis
    proof (cases res)
      case (Inl err)
      with True Some c inv1 show ?thesis by (simp add: addContext_def Let_def)
    next
      case (Inr u)
      show ?thesis
      proof (cases "contextWindows L1 p")
        case None
        with True Some c Inr inv1 show ?thesis by (simp add: addContext_def Let_def)
      next
        case (Some w1)
        let ?up1 = "percentage (currentUsage w1 + ?sz) p"
        show ?thesis
        proof (cases "?up1 > ?max")
          case True
          with \<open>?up > ?max\<close> \<open>contextWindows L p = Some w\<close> c Inr Some inv1 lim show ?thesis
            by (simp add: addContext_def Let_def)
        next
          case False
          then have fits1: "?up1 \<le> maxPercentage (limits (projectContext L1))"
            using lim by simp
          from False \<open>?up > ?max\<close> \<open>contextWindows L p = Some w\<close> c Inr Some lim
          have "addContext e L p item = admit e L1 p ?item ?sz ?up"
            by (simp add: addContext_def Let_def)
          with admit_invariants [OF inv1 Some fits1 nonneg] show ?thesis by simp
        qed
      qed
    qed
  qed
qed

lemma removeContext_invariants:
  assumes "within_ceiling L" "sizes_nonneg L"
  shows "within_ceiling (snd (removeContext e L p ip)) \<and> sizes_nonneg (snd (removeContext e L p ip))"
  using shrinks_invariants [OF removeContext_shrinks [OF assms(2)] assms] .

lemma apply_ops_invariants:
  "within_ceiling L \<Longrightarrow> sizes_nonneg L \<Longrightarrow>
   within_ceiling (apply_ops L ops) \<and> sizes_nonneg (apply_ops L ops)"
proof (induction ops arbitrary: L)
  case Nil
  then show ?case by simp
next
  case (Cons ex xs)
  obtain e x where ex: "ex = (e, x)" by (cases ex)
  have "within_ceiling (apply_op e L x) \<and> sizes_nonneg (apply_op e L x)"
    using Cons.prems addContext_invariants removeContext_invariants by (cases x) simp_all
  with Cons.IH ex show ?case by simp
qed

text \<open>What \<open>addContext\<close> does when the item does not fit as the window stands.\<close>

lemma addContext_over_ceiling:
  assumes w: "contextWindows L p = Some w"
    and over: "percentage (currentUsage w + calculateItemSize item) p
                 > maxPercentage (limits (projectContext L))"
    and c: "performAutomaticCleanup e L p (calculateItemSize item) = (Inr (), L1)"
    and w1: "contextWindows L1 p = Some w1"
    and lim: "limits (projectContext L1) = limits (projectContext L)"
  shows "addContext e L p item =
          (if percentage (currentUsage w1 + calculateItemSize item) p
                > maxPercentage (limits (projectContext L))
           then (Inl (ContextOverflowError
                        (percentage (currentUsage w1 + calculateItemSize item) p)
                        (maxPercentage (limits (projectContext L)))), L1)
           else admit e L1 p (item\<lparr>item_size := calculateItemSize item\<rparr>)
                  (calculateItemSize item)
                  (percentage (currentUsage w + calculateItemSize item) p))"
  using w over c w1 lim by (simp add: addContext_def Let_def)

lemma initial_ledger_invariants:
  "within_ceiling (initial_ledger t) \<and> sizes_nonneg (initial_ledger t)"
  by (simp add: within_ceiling_def sizes_nonneg_def initial_ledger_def initial_window_def
      percentage_def)

lemma concrete_sizes:
  "calculateItemSize file_a = 2800"
  "calculateItemSize config_a = 300"
  "calculateItemSize dep_b = 200"
  by (simp_all add: calculateItemSize_def js_round_def file_a_def config_a_def dep_b_def
      filler_def floor_eq_iff)

lemma concrete_fields:
  "path file_a = ''a''" "path config_a = ''a''" "path dep_b = ''b''"
  "item_type file_a = FileItem" "item_type config_a = ConfigItem"
  "item_type dep_b = DependencyItem"
  by (simp_all add: file_a_def config_a_def dep_b_def)

lemma ledger2_window:
  "contextWindows ledger2 QaEngineer =
     Some \<lparr>persona = QaEngineer,
           items = [file_a\<lparr>item_size := 2800\<rparr>, config_a\<lparr>item_size := 300\<rparr>],
           currentUsage = 3100, lastUpdated = 1000, priority = 6\<rparr>"
  by (simp add: ledger2_def addContext_def admit_def Let_def percentage_def
      getContextCapacity_values initial_ledger_def initial_window_def concrete_sizes env0_def
      updateTotalUsage_def set_agentUsage_def personas_def)

lemma ledger2_context:
  "projectContext ledger2 =
     \<lparr>totalUsage = 155 / 32,
      agentUsage = [(RequirementsAnalyst, 0), (UiUxDesigner, 0), (FrontendDeveloper, 0),
                    (BackendArchitect, 0), (QaEngineer, 155 / 4), (SecurityAnalyst, 0),
                    (TechnicalWriter, 0), (DevopsEngineer, 0)],
      activeContext = [],
      limits = \<lparr>maxPercentage = 40, warningThreshold = 35, maxItems = 1000\<rparr>\<rparr>"
  by (simp add: ledger2_def addContext_def admit_def Let_def percentage_def
      getContextCapacity_values initial_ledger_def initial_window_def concrete_sizes env0_def
      updateTotalUsage_def set_agentUsage_def personas_def)

lemma ledger3_window:
  "contextWindows ledger3 QaEngineer =
     Some \<lparr>persona = QaEngineer,
           items = [config_a\<lparr>item_size := 300\<rparr>, dep_b\<lparr>item_size := 200\<rparr>],
           currentUsage = 500, lastUpdated = 1000, priority = 6\<rparr>"
  by (simp add: ledger3_def ledger2_def addContext_def admit_def performAutomaticCleanup_def
      removeContext_def Let_def percentage_def
      getContextCapacity_values initial_ledger_def initial_window_def concrete_sizes env0_def
      updateTotalUsage_def set_agentUsage_def personas_def concrete_fields)

lemma ledger3_context:
  "projectContext ledger3 =
     \<lparr>totalUsage = 165 / 32,
      agentUsage = [(RequirementsAnalyst, 0), (UiUxDesigner, 0), (FrontendDeveloper, 0),
                    (BackendArchitect, 0), (QaEngineer, 165 / 4), (SecurityAnalyst, 0),
                    (TechnicalWriter, 0), (DevopsEngineer, 0)],
      activeContext = [],
      limits = \<lparr>maxPercentage = 40, warningThreshold = 35, maxItems = 1000\<rparr>\<rparr>"
  by (simp add: ledger3_def ledger2_def addContext_def admit_def performAutomaticCleanup_def
      removeContext_def Let_def percentage_def
      getContextCapacity_values initial_ledger_def initial_window_def concrete_sizes env0_def
      updateTotalUsage_def set_agentUsage_def personas_def concrete_fields)

lemma ledger3_result: "fst (addContext env0 ledger2 QaEngineer dep_b) = Inr ()"
  by (simp add: ledger2_def addContext_def admit_def performAutomaticCleanup_def
      removeContext_def Let_def percentage_def
      getContextCapacity_values initial_ledger_def initial_window_def concrete_sizes env0_def
      updateTotalUsage_def set_agentUsage_def personas_def concrete_fields)

lemma ledger3_selection:
  "itemsToRemove
     (sort_key (\<lambda>item. typePriority (item_type item))
        [file_a\<lparr>item_size := 2800\<rparr>, config_a\<lparr>item_size := 300\<rparr>]) 200 0 = [''a'']
   \<and> sort_key (\<lambda>item. typePriority (item_type item))
        [file_a\<lparr>item_size := 2800\<rparr>, config_a\<lparr>item_size := 300\<rparr>]
       = [config_a\<lparr>item_size := 300\<rparr>, file_a\<lparr>item_size := 2800\<rparr>]"
  by (simp add: concrete_fields)

text \<open>
  Claim C2: from a ledger whose windows are within the ceiling, every sequence of
  \<open>addContext\<close> and \<open>removeContext\<close> calls leaves every window within the ceiling,
  whether the calls succeed or fail.  A reservation that would exceed the ceiling first
  runs the cleanup, which only removes items; it then either fails with
  \<open>ContextOverflowError\<close>, the ledger being the one the cleanup left, or succeeds with
  the item appended to the window the cleanup left and the new total within the
  ceiling.  (File writes are taken to succeed for the second part.)
\<close>

theorem budget_invariant:
  assumes inv: "within_ceiling L" "sizes_nonneg L"
  shows "within_ceiling (apply_ops L ops)
       \<and> (\<forall>p item w.
            contextWindows L p = Some w \<and> persistOk e \<and>
            percentage (currentUsage w + calculateItemSize item) p
              > maxPercentage (limits (projectContext L)) \<longrightarrow>
            (\<exists>L1 w1.
               performAutomaticCleanup e L p (calculateItemSize item) = (Inr (), L1) \<and>
               contextWindows L1 p = Some w1 \<and> set (items w1) \<subseteq> set (items w) \<and>
               (if percentage (currentUsage w1 + calculateItemSize item) p
                     > maxPercentage (limits (projectContext L))
                then addContext e L p item =
                       (Inl (ContextOverflowError
                               (percentage (currentUsage w1 + calculateItemSize item) p)
                               (maxPercentage (limits (projectContext L)))), L1)
                else fst (addContext e L p item) = Inr () \<and>
                     contextWindows (snd (addContext e L p item)) p =
                       Some (w1\<lparr>items := items w1 @ [item\<lparr>item_size := calculateItemSize item\<rparr>],
                                currentUsage := currentUsage w1 + calculateItemSize item,
                                lastUpdated := now e\<rparr>) \<and>
                     percentage (currentUsage w1 + calculateItemSize item) p
                       \<le> maxPercentage (limits (projectContext L)))))"
proof (intro conjI allI impI)
  show "within_ceiling (apply_ops L ops)"
    using apply_ops_invariants [OF inv] by simp
next
  fix p item w
  let ?sz = "calculateItemSize item"
  let ?max = "maxPercentage (limits (projectContext L))"
  assume a: "contextWindows L p = Some w \<and> persistOk e \<and>
             percentage (currentUsage w + ?sz) p > ?max"
  then have w: "contextWindows L p = Some w" and ok: "persistOk e"
    and over: "percentage (currentUsage w + ?sz) p > ?max" by simp_all
  obtain L1 where c: "performAutomaticCleanup e L p ?sz = (Inr (), L1)"
    using performAutomaticCleanup_succeeds [OF ok, of L p ?sz]
    by (cases "performAutomaticCleanup e L p ?sz") auto
  from performAutomaticCleanup_shrinks [OF inv(2), of e p ?sz] c have sh: "shrinks L L1" by simp
  then have lim: "limits (projectContext L1) = limits (projectContext L)"
    by (simp add: shrinks_def)
  from sh w obtain w1 where w1: "contextWindows L1 p = Some w1"
    and sub: "set (items w1) \<subseteq> set (items w)"
    unfolding shrinks_def by (cases "contextWindows L1 p") (auto dest!: spec [of _ p])
  note unfold = addContext_over_ceiling [OF w over c w1 lim]
  have "if percentage (currentUsage w1 + ?sz) p > ?max
        then addContext e L p item =
               (Inl (ContextOverflowError (percentage (currentUsage w1 + ?sz) p) ?max), L1)
        else fst (addContext e L p item) = Inr () \<and>
             contextWindows (snd (addContext e L p item)) p =
               Some (w1\<lparr>items := items w1 @ [item\<lparr>item_size := ?sz\<rparr>],
                        currentUsage := currentUsage w1 + ?sz, lastUpdated := now e\<rparr>) \<and>
             percentage (currentUsage w1 + ?sz) p \<le> ?max"
  proof (cases "percentage (currentUsage w1 + ?sz) p > ?max")
    case True
    with unfold show ?thesis by simp
  next
    case False
    with unfold have "addContext e L p item =
        admit e L1 p (item\<lparr>item_size := ?sz\<rparr>) ?sz (percentage (currentUsage w + ?sz) p)"
      by simp
    with False admit_succeeds [OF w1 ok] admit_window [OF w1] show ?thesis by simp
  qed
  with c w1 sub
  show "\<exists>L1 w1.
          performAutomaticCleanup e L p ?sz = (Inr (), L1) \<and>
          contextWindows L1 p = Some w1 \<and> set (items w1) \<subseteq> set (items w) \<and>
          (if percentage (currentUsage w1 + ?sz) p > ?max
           then addContext e L p item =
                  (Inl (ContextOverflowError (percentage (currentUsage w1 + ?sz) p) ?max), L1)
           else fst (addContext e L p item) = Inr () \<and>
                contextWindows (snd (addContext e L p item)) p =
                  Some (w1\<lparr>items := items w1 @ [item\<lparr>item_size := ?sz\<rparr>],
                           currentUsage := currentUsage w1 + ?sz, lastUpdated := now e\<rparr>) \<and>
                percentage (currentUsage w1 + ?sz) p \<le> ?max)"
    by blast
qed

lemma ledger2_invariants: "within_ceiling ledger2 \<and> sizes_nonneg ledger2"
  unfolding ledger2_def using initial_ledger_invariants apply_ops_invariants by blast

theorem budget_invariant_witness:
  "within_ceiling ledger2 \<and> sizes_nonneg ledger2
   \<and> within_ceiling ledger3
   \<and> contextWindows ledger2 QaEngineer =
       Some \<lparr>persona = QaEngineer,
             items = [file_a\<lparr>item_size := 2800\<rparr>, config_a\<lparr>item_size := 300\<rparr>],
             currentUsage = 3100, lastUpdated = 1000, priority = 6\<rparr>
   \<and> persistOk env0
   \<and> percentage (3100 + calculateItemSize dep_b) QaEngineer
        > maxPercentage (limits (projectContext ledger2))
   \<and> fst (addContext env0 ledger2 QaEngineer dep_b) = Inr ()
   \<and> percentage 500 QaEngineer \<le> maxPercentage (limits (projectContext ledger2))"
proof -
  from ledger2_invariants have i: "within_ceiling ledger2" "sizes_nonneg ledger2" by simp_all
  from budget_invariant [OF i, where ops = "[(env0, AddContext QaEngineer dep_b)]" and e = env0]
  have "within_ceiling ledger3" by (simp add: ledger3_def)
  moreover have "percentage (3100 + calculateItemSize dep_b) QaEngineer
        > maxPercentage (limits (projectContext ledger2))"
    by (simp add: ledger2_context concrete_sizes percentage_def getContextCapacity_values)
  moreover have "percentage 500 QaEngineer \<le> maxPercentage (limits (projectContext ledger2))"
    by (simp add: ledger2_context percentage_def getContextCapacity_values)
  ultimately show ?thesis
    using i ledger2_window ledger3_result by (simp add: env0_def)
qed

text \<open>The cleanup on a window whose items have pairwise distinct paths.\<close>

lemma splice_path_distinct:
  "distinct (map path xs) \<Longrightarrow>
   (case splice_path ip xs of
      None \<Rightarrow> filter (\<lambda>i. path i \<noteq> ip) xs = xs
    | Some (r, ys) \<Rightarrow> ys = filter (\<lambda>i. path i \<noteq> ip) xs)"
proof (induction xs)
  case Nil
  then show ?case by simp
next
  case (Cons x xs)
  show ?case
  proof (cases "path x = ip")
    case True
    from Cons.prems have "path x \<notin> path ` set xs" by simp
    with True have "\<forall>i \<in> set xs. path i \<noteq> ip" by blast
    then have "filter (\<lambda>i. path i \<noteq> ip) xs = xs" by (simp add: filter_id_conv)
    with True show ?thesis by simp
  next
    case False
    with Cons show ?thesis by (auto split: option.splits)
  qed
qed

lemma removeContext_distinct:
  assumes w: "contextWindows L p = Some w" and d: "distinct (map path (items w))"
  shows "\<exists>w'. contextWindows (snd (removeContext e L p ip)) p = Some w'
              \<and> items w' = filter (\<lambda>i. path i \<noteq> ip) (items w)"
proof (cases "splice_path ip (items w)")
  case None
  with splice_path_distinct [OF d, of ip] w show ?thesis
    by (simp add: removeContext_def)
next
  case (Some rys)
  obtain r ys where rys: "rys = (r, ys)" by (cases rys)
  with splice_path_distinct [OF d, of ip] Some w show ?thesis
    by (simp add: removeContext_def Let_def)
qed

lemma remove_each_distinct:
  "contextWindows L p = Some w \<Longrightarrow> distinct (map path (items w)) \<Longrightarrow> persistOk e \<Longrightarrow>
   \<exists>w'. contextWindows (snd (remove_each e L p ps)) p = Some w'
        \<and> items w' = filter (\<lambda>i. path i \<notin> set ps) (items w)"
proof (induction ps arbitrary: L w)
  case Nil
  then show ?case by simp
next
  case (Cons ip ps)
  from removeContext_succeeds [OF Cons.prems(3), of L p ip] obtain removed L1
    where r: "removeContext e L p ip = (Inr removed, L1)"
    by (cases "removeContext e L p ip") auto
  from removeContext_distinct [OF Cons.prems(1,2), of e ip] r obtain w1
    where w1: "contextWindows L1 p = Some w1"
      and i1: "items w1 = filter (\<lambda>i. path i \<noteq> ip) (items w)" by auto
  from Cons.prems(2) i1 have d1: "distinct (map path (items w1))"
    by (simp add: distinct_map_filter)
  from Cons.IH [OF w1 d1 Cons.prems(3)] obtain w' where
    "contextWindows (snd (remove_each e L1 p ps)) p = Some w'"
    "items w' = filter (\<lambda>i. path i \<notin> set ps) (items w1)" by blast
  with i1 r show ?case by (auto intro: filter_cong)
qed

lemma itemsToRemove_length: "length (itemsToRemove xs required freed) \<le> length xs"
  by (induction xs arbitrary: freed) auto

lemma itemsToRemove_prefix:
  "itemsToRemove xs required freed
     = map path (take (length (itemsToRemove xs required freed)) xs)"
  by (induction xs arbitrary: freed) auto

lemma itemsToRemove_stops:
  "(length (itemsToRemove xs required freed) = length xs
      \<or> required \<le> freed + sum_list (map item_size
                                   (take (length (itemsToRemove xs required freed)) xs)))
   \<and> (\<forall>k < length (itemsToRemove xs required freed).
         freed + sum_list (map item_size (take k xs)) < required)"
proof (induction xs arbitrary: freed)
  case Nil
  then show ?case by simp
next
  case (Cons x xs)
  show ?case
  proof (cases "freed \<ge> required")
    case True
    then show ?thesis by simp
  next
    case False
    let ?n = "length (itemsToRemove xs required (freed + item_size x))"
    from Cons.IH [of "freed + item_size x"]
    have a: "?n = length xs
               \<or> required \<le> freed + item_size x + sum_list (map item_size (take ?n xs))"
      and b: "\<forall>k < ?n. freed + item_size x + sum_list (map item_size (take k xs)) < required"
      by simp_all
    have "\<forall>k < Suc ?n. freed + sum_list (map item_size (take k (x # xs))) < required"
    proof (intro allI impI)
      fix k assume "k < Suc ?n"
      with b False show "freed + sum_list (map item_size (take k (x # xs))) < required"
        by (cases k) (auto simp: add.assoc)
    qed
    with a False show ?thesis by (auto simp: add.assoc)
  qed
qed

lemma prefix_below_rest:
  assumes ordered: "sorted (map key its)"
    and early: "a \<in> set (take k its)" and late: "b \<in> set (drop k its)"
  shows "key a \<le> key b"
proof -
  have "sorted (map key (take k its) @ map key (drop k its))"
    using ordered by (simp add: map_append [symmetric] del: map_append)
  with early late show ?thesis by (auto simp: sorted_append)
qed

text \<open>
  On a window whose items have pairwise distinct paths the cleanup evicts a prefix of
  the items sorted by type priority (config, dependency, file, interface; the order of
  the window within a type): the shortest prefix whose sizes add up to the space
  required, or every item.  No evicted item has a higher type priority than an item
  that stays, and the window keeps its other items in their order.
\<close>

lemma eviction_with_distinct_paths:
  assumes w: "contextWindows L p = Some w"
    and d: "distinct (map path (items w))"
    and ok: "persistOk e"
  shows "\<exists>L1 w1 evicted.
           performAutomaticCleanup e L p required = (Inr (), L1)
           \<and> contextWindows L1 p = Some w1
           \<and> evicted = take (length evicted)
                          (sort_key (\<lambda>item. typePriority (item_type item)) (items w))
           \<and> items w1 = filter (\<lambda>i. i \<notin> set evicted) (items w)
           \<and> (\<forall>x \<in> set evicted. \<forall>y \<in> set (items w1).
                 typePriority (item_type x) \<le> typePriority (item_type y))
           \<and> (length evicted = length (items w)
                \<or> required \<le> sum_list (map item_size evicted))
           \<and> (\<forall>k < length evicted.
                 sum_list (map item_size
                   (take k (sort_key (\<lambda>item. typePriority (item_type item)) (items w))))
                   < required)"
proof -
  let ?key = "\<lambda>item. typePriority (item_type item)"
  let ?sorted = "sort_key ?key (items w)"
  let ?ps = "itemsToRemove ?sorted required 0"
  let ?n = "length ?ps"
  let ?ev = "take ?n ?sorted"
  have n_le: "?n \<le> length ?sorted" by (rule itemsToRemove_length)
  have ps: "?ps = map path ?ev" by (rule itemsToRemove_prefix)
  have mem: "set ?ps = path ` set ?ev"
  proof -
    have "set ?ps = set (map path ?ev)" by (rule arg_cong [where f = set, OF ps])
    then show ?thesis by (simp only: set_map)
  qed
  from remove_each_distinct [OF w d ok, of ?ps] obtain w1 where
    w1: "contextWindows (snd (remove_each e L p ?ps)) p = Some w1"
    and i1: "items w1 = filter (\<lambda>i. path i \<notin> set ?ps) (items w)" by blast
  from remove_each_succeeds [OF ok, of L p ?ps] obtain L0 where
    r: "remove_each e L p ?ps = (Inr (), L0)"
    by (cases "remove_each e L p ?ps") auto
  let ?L1 = "L0\<lparr>ledger_events := ledger_events L0 @ [''context.cleanup.completed'']\<rparr>"
  have c: "performAutomaticCleanup e L p required = (Inr (), ?L1)"
    using w r by (simp add: performAutomaticCleanup_def Let_def)
  have cw: "contextWindows ?L1 p = Some w1" using w1 r by simp
  have sub: "set ?ev \<subseteq> set (items w)"
    using set_take_subset [of ?n ?sorted] by simp
  have inj: "inj_on path (set (items w))" using d by (simp add: distinct_map)
  have same: "filter (\<lambda>i. path i \<notin> set ?ps) (items w) = filter (\<lambda>i. i \<notin> set ?ev) (items w)"
  proof (rule filter_cong [OF refl])
    fix i assume i: "i \<in> set (items w)"
    show "(path i \<notin> set ?ps) = (i \<notin> set ?ev)"
    proof
      assume "path i \<notin> set ?ps"
      then show "i \<notin> set ?ev" using mem by blast
    next
      assume ni: "i \<notin> set ?ev"
      show "path i \<notin> set ?ps"
      proof
        assume "path i \<in> set ?ps"
        then obtain x where "x \<in> set ?ev" "path x = path i" using mem by auto
        with sub i inj have "x = i" by (auto dest: inj_onD)
        with \<open>x \<in> set ?ev\<close> ni show False by simp
      qed
    qed
  qed
  have order: "\<forall>x \<in> set ?ev. \<forall>y \<in> set (items w1). ?key x \<le> ?key y"
  proof (intro ballI)
    fix x y assume x: "x \<in> set ?ev" and y: "y \<in> set (items w1)"
    from y i1 same have "y \<in> set (items w)" "y \<notin> set ?ev" by auto
    then have "y \<in> set ?sorted" by simp
    then have "y \<in> set (take ?n ?sorted) \<union> set (drop ?n ?sorted)"
      by (metis append_take_drop_id set_append)
    with \<open>y \<notin> set ?ev\<close> have "y \<in> set (drop ?n ?sorted)" by simp
    with x show "?key x \<le> ?key y"
      by (intro prefix_below_rest [of ?key ?sorted _ ?n]) simp_all
  qed
  have len: "length ?ev = ?n" using n_le by simp
  from itemsToRemove_stops [of ?sorted required 0]
  have stop: "?n = length (items w) \<or> required \<le> sum_list (map item_size ?ev)"
    and before: "\<forall>k < ?n. sum_list (map item_size (take k ?sorted)) < required"
    by simp_all
  show ?thesis
    using c cw i1 same order stop before len
    by (intro exI [of _ ?L1] exI [of _ w1] exI [of _ ?ev]) simp
qed

text \<open>
  Claim C6 at the concrete run: the window holds a file item and a config item under
  the same path.  The cleanup for the dependency selects the config item, the first of
  the items sorted by type, and removes by path; the removal takes the first item of
  the window with that path, which is the file item.  After the reservation has
  succeeded the config item is still in the window and the file item is gone.
\<close>

theorem eviction_removes_file_before_config:
  "contextWindows ledger2 QaEngineer =
     Some \<lparr>persona = QaEngineer,
           items = [file_a\<lparr>item_size := 2800\<rparr>, config_a\<lparr>item_size := 300\<rparr>],
           currentUsage = 3100, lastUpdated = 1000, priority = 6\<rparr>
   \<and> sort_key (\<lambda>item. typePriority (item_type item))
        [file_a\<lparr>item_size := 2800\<rparr>, config_a\<lparr>item_size := 300\<rparr>]
       = [config_a\<lparr>item_size := 300\<rparr>, file_a\<lparr>item_size := 2800\<rparr>]
   \<and> itemsToRemove [config_a\<lparr>item_size := 300\<rparr>, file_a\<lparr>item_size := 2800\<rparr>] 200 0 = [''a'']
   \<and> fst (addContext env0 ledger2 QaEngineer dep_b) = Inr ()
   \<and> contextWindows (snd (addContext env0 ledger2 QaEngineer dep_b)) QaEngineer =
       Some \<lparr>persona = QaEngineer,
             items = [config_a\<lparr>item_size := 300\<rparr>, dep_b\<lparr>item_size := 200\<rparr>],
             currentUsage = 500, lastUpdated = 1000, priority = 6\<rparr>
   \<and> typePriority (item_type config_a) < typePriority (item_type file_a)"
  using ledger2_window ledger3_window ledger3_result ledger3_selection
  by (simp add: ledger3_def concrete_fields)

text \<open>The percentage recorded by \<open>removeContext\<close>, and by \<open>addContext\<close> when no cleanup
  is needed, is the current one, and the aggregate is the mean of the recorded
  percentages.\<close>

lemma recorded_after_update:
  "map_of (agentUsage (updateTotalUsage (set_agentUsage p v pc))) p = Some v
   \<and> totalUsage (updateTotalUsage (set_agentUsage p v pc))
       = sum_list (map snd (agentUsage (updateTotalUsage (set_agentUsage p v pc))))
           / rat_of_nat (length (agentUsage (updateTotalUsage (set_agentUsage p v pc))))"
  by (simp add: updateTotalUsage_def set_agentUsage_def update_conv')

lemma removeContext_records_usage:
  assumes "contextWindows L p = Some w" "splice_path ip (items w) = Some (r, ys)"
  shows "\<exists>w'. contextWindows (snd (removeContext e L p ip)) p = Some w'
           \<and> map_of (agentUsage (projectContext (snd (removeContext e L p ip)))) p
               = Some (percentage (currentUsage w') p)"
  using assms recorded_after_update
  by (simp add: removeContext_def Let_def)

lemma addContext_records_usage:
  assumes "contextWindows L p = Some w"
    and "\<not> percentage (currentUsage w + calculateItemSize item) p
             > maxPercentage (limits (projectContext L))"
  shows "\<exists>w'. contextWindows (snd (addContext e L p item)) p = Some w'
           \<and> map_of (agentUsage (projectContext (snd (addContext e L p item)))) p
               = Some (percentage (currentUsage w') p)"
  using assms recorded_after_update
  by (simp add: addContext_def admit_def Let_def)

text \<open>
  Claim C7 at the concrete run: after the reservation that triggered the cleanup, the
  window holds 500 of 8000 units, which is 6.25 percent; the percentage recorded for
  the persona is 41.25, the value computed before the cleanup, and the aggregate is
  the mean of the recorded values, 41.25 / 8, not the mean of the current ones.
\<close>

theorem stale_percentage_after_eviction:
  "contextWindows ledger3 QaEngineer =
     Some \<lparr>persona = QaEngineer,
           items = [config_a\<lparr>item_size := 300\<rparr>, dep_b\<lparr>item_size := 200\<rparr>],
           currentUsage = 500, lastUpdated = 1000, priority = 6\<rparr>
   \<and> percentage 500 QaEngineer = 25 / 4
   \<and> map_of (agentUsage (projectContext ledger3)) QaEngineer = Some (165 / 4)
   \<and> totalUsage (projectContext ledger3) = 165 / 32
   \<and> fst (addContext env0 ledger2 QaEngineer dep_b) = Inr ()"
  using ledger3_window ledger3_result
  by (simp add: ledger3_context percentage_def getContextCapacity_values)

section \<open>Properties of the dispatcher\<close>

lemma polish_keywords: "fst (analyzeTaskRequirements polish_task) = []"
  by (simp add: analyzeTaskRequirements_def task_text_def polish_task_def template_def
      to_lower_def specializationKeywords_def Let_def char_of_def)

lemma roster_scores: "agentScores roster polish_task = map (\<lambda>p. (p, 13)) personas"
  by (simp add: agentScores_def polish_keywords roster_def initializeAgents_def personas_def
      agent_score_def)

lemma roster_selection: "selectOptimalAgent roster polish_task = Inr RequirementsAnalyst"
  by (simp add: selectOptimalAgent_def roster_scores personas_def)

lemma saturated_scores:
  "agentScores (map saturated roster) polish_task
     = [(RequirementsAnalyst, 5), (UiUxDesigner, - 5), (FrontendDeveloper, - 5),
        (BackendArchitect, - 5), (QaEngineer, - 5), (SecurityAnalyst, - 5),
        (TechnicalWriter, - 5), (DevopsEngineer, - 5)]"
  by (simp add: agentScores_def polish_keywords roster_def initializeAgents_def personas_def
      agent_score_def saturated_def)

lemma saturated_no_eligible: "no_eligible_worker (map saturated roster) polish_task"
  by (simp add: no_eligible_worker_def polish_keywords roster_def initializeAgents_def
      personas_def agent_score_def saturated_def)

lemma saturated_selection:
  "selectOptimalAgent (map saturated roster) polish_task = Inr RequirementsAnalyst"
  by (simp add: selectOptimalAgent_def saturated_scores)

lemma polish_task_fields:
  "task_id polish_task = Some ''T-1''" "title polish_task = Some ''Polish''"
  "assignedAgent polish_task = None" "contextRequirement polish_task = 10"
  by (simp_all add: polish_task_def)

lemma busy_assignment:
  "fst (assignTask busy_orchestrator polish_task) = Inr ()
   \<and> taskQueue (snd (snd (assignTask busy_orchestrator polish_task)))
       = [polish_task\<lparr>assignedAgent := Some RequirementsAnalyst\<rparr>]"
proof -
  have m: "map_of (agents busy_orchestrator) RequirementsAnalyst
            = Some (snd (saturated (hd roster)))"
    by (simp add: busy_orchestrator_def roster_def initializeAgents_def personas_def saturated_def)
  have l: "contextLimit (snd (saturated (hd roster))) = 30"
    by (simp add: roster_def initializeAgents_def personas_def saturated_def)
  have s: "selectOptimalAgent (agents busy_orchestrator) polish_task = Inr RequirementsAnalyst"
    using saturated_selection by (simp add: busy_orchestrator_def)
  have q: "taskQueue busy_orchestrator = []" by (simp add: busy_orchestrator_def)
  show ?thesis
    by (simp add: assignTask_def Let_def m l s q polish_task_fields)
qed

lemma errored_first_agent:
  "map (\<lambda>entry. agent_status (snd entry)) (map saturated roster)
     = [Error, Working, Working, Working, Working, Working, Working, Working]"
  by (simp add: roster_def initializeAgents_def personas_def saturated_def)

text \<open>
  Claim C4 as stated fails: with the first agent errored and every other agent working
  at its context limit, no agent that is not errored scores above zero, and
  \<open>assignTask\<close> does not fail: it queues the task, assigned to the errored agent,
  whose score of 5 is the highest.
\<close>

theorem no_eligible_worker_is_not_an_error:
  "no_eligible_worker (agents busy_orchestrator) polish_task
   \<and> map (\<lambda>entry. agent_status (snd entry)) (agents busy_orchestrator)
       = [Error, Working, Working, Working, Working, Working, Working, Working]
   \<and> agentScores (agents busy_orchestrator) polish_task
       = [(RequirementsAnalyst, 5), (UiUxDesigner, - 5), (FrontendDeveloper, - 5),
          (BackendArchitect, - 5), (QaEngineer, - 5), (SecurityAnalyst, - 5),
          (TechnicalWriter, - 5), (DevopsEngineer, - 5)]
   \<and> fst (assignTask busy_orchestrator polish_task) = Inr ()
   \<and> taskQueue (snd (snd (assignTask busy_orchestrator polish_task)))
       = [polish_task\<lparr>assignedAgent := Some RequirementsAnalyst\<rparr>]"
  using saturated_no_eligible errored_first_agent saturated_scores busy_assignment
  by (simp add: busy_orchestrator_def)

text \<open>The head of the stable sort by descending score is the first best entry.\<close>

lemma hd_insort_key:
  "hd (insort_key f x ys) = (if ys = [] \<or> f x \<le> f (hd ys) then x else hd ys)"
  by (cases ys) auto

lemma sort_key_Nil_iff: "sort_key f xs = [] \<longleftrightarrow> xs = []"
  using length_sort [of f xs] by (metis length_0_conv)

lemma first_best_None: "first_best es = None \<longleftrightarrow> es = []"
  by (induction es) (auto split: option.splits)

lemma sort_key_hd_first_best:
  "es \<noteq> [] \<Longrightarrow> first_best es = Some (hd (sort_key (\<lambda>entry. - snd entry) es))"
proof (induction es)
  case Nil
  then show ?case by simp
next
  case (Cons e es)
  show ?case
  proof (cases "es = []")
    case True
    then show ?thesis by simp
  next
    case False
    from Cons.IH [OF False] have b: "first_best es = Some (hd (sort_key (\<lambda>entry. - snd entry) es))" .
    from False have ne: "sort_key (\<lambda>entry. - snd entry) es \<noteq> []"
      by (simp add: sort_key_Nil_iff)
    show ?thesis using b ne by (auto simp: hd_insort_key)
  qed
qed

lemma first_best_index:
  "first_best es = Some b \<Longrightarrow>
   \<exists>i < length es. es ! i = b \<and> (\<forall>j < length es. snd (es ! j) \<le> snd b)
                    \<and> (\<forall>j < i. snd (es ! j) < snd b)"
proof (induction es arbitrary: b)
  case Nil
  then show ?case by simp
next
  case (Cons e es)
  show ?case
  proof (cases "first_best es")
    case None
    then have "es = []" by (simp add: first_best_None)
    with Cons.prems show ?thesis by auto
  next
    case (Some best)
    from Cons.IH [OF Some] obtain i where i: "i < length es" "es ! i = best"
      and all: "\<forall>j < length es. snd (es ! j) \<le> snd best"
      and before: "\<forall>j < i. snd (es ! j) < snd best" by blast
    show ?thesis
    proof (cases "snd best > snd e")
      case True
      with Some Cons.prems have b: "b = best" by simp
      have "Suc i < length (e # es)" using i by simp
      moreover have "(e # es) ! Suc i = b" using i b by simp
      moreover have "\<forall>j < length (e # es). snd ((e # es) ! j) \<le> snd b"
        using all True b by (auto simp: nth_Cons split: nat.splits)
      moreover have "\<forall>j < Suc i. snd ((e # es) ! j) < snd b"
        using before True b by (auto simp: nth_Cons split: nat.splits)
      ultimately show ?thesis by blast
    next
      case False
      with Some Cons.prems have b: "b = e" by simp
      have "\<forall>j < length (e # es). snd ((e # es) ! j) \<le> snd b"
        using all False b by (fastforce simp: nth_Cons split: nat.splits)
      then show ?thesis using b by (intro exI [of _ 0]) simp
    qed
  qed
qed

lemma selectOptimalAgent_first_best:
  "ags \<noteq> [] \<Longrightarrow>
   \<exists>b. first_best (agentScores ags task) = Some b \<and> selectOptimalAgent ags task = Inr (fst b)"
proof -
  assume "ags \<noteq> []"
  then have ne: "agentScores ags task \<noteq> []" by (simp add: agentScores_def)
  then have "sort_key (\<lambda>entry. - snd entry) (agentScores ags task) \<noteq> []"
    by (simp add: sort_key_Nil_iff)
  then have "selectOptimalAgent ags task
               = Inr (fst (hd (sort_key (\<lambda>entry. - snd entry) (agentScores ags task))))"
    by (simp add: selectOptimalAgent_def split: list.splits)
  with sort_key_hd_first_best [OF ne] show ?thesis by simp
qed

lemma agentScores_nth:
  "i < length ags \<Longrightarrow>
   agentScores ags task ! i
     = (fst (ags ! i), agent_score (fst (analyzeTaskRequirements task)) (snd (ags ! i)))"
  by (simp add: agentScores_def split: prod.splits)

lemma selectOptimalAgent_index:
  assumes "ags \<noteq> []"
  shows "\<exists>i < length ags.
           selectOptimalAgent ags task = Inr (fst (ags ! i))
           \<and> (\<forall>j < length ags.
                 agent_score (fst (analyzeTaskRequirements task)) (snd (ags ! j))
                   \<le> agent_score (fst (analyzeTaskRequirements task)) (snd (ags ! i)))
           \<and> (\<forall>j < i.
                 agent_score (fst (analyzeTaskRequirements task)) (snd (ags ! j))
                   < agent_score (fst (analyzeTaskRequirements task)) (snd (ags ! i)))"
proof -
  from selectOptimalAgent_first_best [OF assms, of task] obtain b where
    fb: "first_best (agentScores ags task) = Some b"
    and sel: "selectOptimalAgent ags task = Inr (fst b)" by blast
  have len: "length (agentScores ags task) = length ags" by (simp add: agentScores_def)
  from first_best_index [OF fb] len obtain i where i: "i < length ags"
    and at: "agentScores ags task ! i = b"
    and all: "\<forall>j < length ags. snd (agentScores ags task ! j) \<le> snd b"
    and before: "\<forall>j < i. snd (agentScores ags task ! j) < snd b" by auto
  from at i have b: "b = (fst (ags ! i), agent_score (fst (analyzeTaskRequirements task)) (snd (ags ! i)))"
    by (simp add: agentScores_nth)
  show ?thesis
  proof (intro exI [of _ i] conjI allI impI)
    show "i < length ags" by fact
    show "selectOptimalAgent ags task = Inr (fst (ags ! i))" using sel b by simp
  next
    fix j assume "j < length ags"
    with all b show "agent_score (fst (analyzeTaskRequirements task)) (snd (ags ! j))
                   \<le> agent_score (fst (analyzeTaskRequirements task)) (snd (ags ! i))"
      by (auto simp: agentScores_nth)
  next
    fix j assume "j < i"
    with before b i show "agent_score (fst (analyzeTaskRequirements task)) (snd (ags ! j))
                   < agent_score (fst (analyzeTaskRequirements task)) (snd (ags ! i))"
      by (auto simp: agentScores_nth)
  qed
qed

lemma same_text_analysis:
  "same_text s t \<Longrightarrow> analyzeTaskRequirements s = analyzeTaskRequirements t"
  by (simp add: same_text_def analyzeTaskRequirements_def task_text_def)

lemma same_capabilities_score:
  "same_capabilities x y \<Longrightarrow> agent_score kw (snd x) = agent_score kw (snd y)"
  by (simp add: same_capabilities_def agent_score_def)

lemma same_agentScores:
  assumes "list_all2 same_capabilities ags ags'" "same_text s t"
  shows "agentScores ags s = agentScores ags' t"
  using assms(1)
proof (induction rule: list_all2_induct)
  case Nil
  then show ?case by (simp add: agentScores_def)
next
  case (Cons x xs y ys)
  obtain p a where x: "x = (p, a)" by (cases x)
  obtain q b where y: "y = (q, b)" by (cases y)
  from Cons.hyps(1) x y have "p = q" by (simp add: same_capabilities_def)
  moreover from same_capabilities_score [OF Cons.hyps(1)] x y
  have "agent_score kw a = agent_score kw b" for kw by simp
  ultimately show ?case
    using Cons.IH same_text_analysis [OF assms(2)] x y by (simp add: agentScores_def)
qed

text \<open>
  Claim C8: the selection reads the personas, specializations, statuses, context usages
  and context limits of the agents and the title, description and acceptance criteria
  of the task, and nothing else: two runs that agree on these select the same agent.
  The agent selected is the first in declaration order among those with the highest
  score.
\<close>

theorem selection_is_deterministic:
  "(list_all2 same_capabilities ags ags' \<and> same_text task task'
      \<longrightarrow> selectOptimalAgent ags task = selectOptimalAgent ags' task')
   \<and> (ags \<noteq> [] \<longrightarrow>
        (\<exists>i < length ags.
           selectOptimalAgent ags task = Inr (fst (ags ! i))
           \<and> (\<forall>j < length ags.
                 agent_score (fst (analyzeTaskRequirements task)) (snd (ags ! j))
                   \<le> agent_score (fst (analyzeTaskRequirements task)) (snd (ags ! i)))
           \<and> (\<forall>j < i.
                 agent_score (fst (analyzeTaskRequirements task)) (snd (ags ! j))
                   < agent_score (fst (analyzeTaskRequirements task)) (snd (ags ! i)))))"
  using same_agentScores [of ags ags' task task'] selectOptimalAgent_index [of ags task]
  by (auto simp: selectOptimalAgent_def)

lemma later_roster_same: "list_all2 same_capabilities roster later_roster"
  by (simp add: roster_def later_roster_def initializeAgents_def personas_def
      same_capabilities_def)

lemma polish_task_again_same: "same_text polish_task polish_task_again"
  by (simp add: same_text_def polish_task_again_def)

theorem selection_is_deterministic_witness:
  "list_all2 same_capabilities roster later_roster
   \<and> same_text polish_task polish_task_again
   \<and> roster \<noteq> []
   \<and> agentScores roster polish_task = map (\<lambda>p. (p, 13)) personas
   \<and> selectOptimalAgent roster polish_task = Inr RequirementsAnalyst
   \<and> selectOptimalAgent later_roster polish_task_again = Inr RequirementsAnalyst"
proof -
  have ne: "roster \<noteq> []" by (simp add: roster_def initializeAgents_def personas_def)
  from selection_is_deterministic [of roster later_roster polish_task polish_task_again]
    later_roster_same polish_task_again_same
  have "selectOptimalAgent roster polish_task = selectOptimalAgent later_roster polish_task_again"
    by blast
  with roster_selection roster_scores ne later_roster_same polish_task_again_same
  show ?thesis by simp
qed

lemma map_of_nth:
  "distinct (map fst xs) \<Longrightarrow> i < length xs \<Longrightarrow> map_of xs (fst (xs ! i)) = Some (snd (xs ! i))"
  by (metis map_of_eq_Some_iff nth_mem prod.collapse)

text \<open>
  Claim C4, as the code has it: a task whose identity or title is missing or empty is
  refused with \<open>INVALID_TASK\<close>.  A valid task with no agent assigned is given to the
  first agent, in declaration order, among those with the highest score, errored
  agents included and whatever the sign of the score; it is refused with
  \<open>CONTEXT_LIMIT_EXCEEDED\<close> when its context requirement exceeds the limit of that
  agent, and queued with that agent assigned otherwise.
\<close>

theorem assignTask_outcomes:
  "((task_id task = None \<or> task_id task = Some [] \<or> title task = None \<or> title task = Some [])
      \<longrightarrow> assignTask orch task = (Inl INVALID_TASK, task, orch))
   \<and> (task_id task \<noteq> None \<and> task_id task \<noteq> Some [] \<and> title task \<noteq> None
        \<and> title task \<noteq> Some [] \<and> assignedAgent task = None
        \<and> agents orch \<noteq> [] \<and> distinct (map fst (agents orch)) \<longrightarrow>
        (\<exists>i < length (agents orch).
           (\<forall>j < length (agents orch).
              agent_score (fst (analyzeTaskRequirements task)) (snd (agents orch ! j))
                \<le> agent_score (fst (analyzeTaskRequirements task)) (snd (agents orch ! i)))
           \<and> (\<forall>j < i.
                 agent_score (fst (analyzeTaskRequirements task)) (snd (agents orch ! j))
                   < agent_score (fst (analyzeTaskRequirements task)) (snd (agents orch ! i)))
           \<and> assignTask orch task =
               (if contextRequirement task > contextLimit (snd (agents orch ! i))
                then (Inl CONTEXT_LIMIT_EXCEEDED,
                      task\<lparr>assignedAgent := Some (fst (agents orch ! i))\<rparr>, orch)
                else (Inr (), task\<lparr>assignedAgent := Some (fst (agents orch ! i))\<rparr>,
                      orch\<lparr>taskQueue := taskQueue orch
                                @ [task\<lparr>assignedAgent := Some (fst (agents orch ! i))\<rparr>],
                           orch_events := orch_events orch @ [(''task.assigned'', task_id task)]\<rparr>))))"
proof (intro conjI impI)
  assume "task_id task = None \<or> task_id task = Some [] \<or> title task = None \<or> title task = Some []"
  then show "assignTask orch task = (Inl INVALID_TASK, task, orch)"
    by (simp add: assignTask_def)
next
  let ?score = "\<lambda>k. agent_score (fst (analyzeTaskRequirements task)) (snd (agents orch ! k))"
  assume a: "task_id task \<noteq> None \<and> task_id task \<noteq> Some [] \<and> title task \<noteq> None
        \<and> title task \<noteq> Some [] \<and> assignedAgent task = None
        \<and> agents orch \<noteq> [] \<and> distinct (map fst (agents orch))"
  then have ne: "agents orch \<noteq> []" and d: "distinct (map fst (agents orch))"
    and valid: "task_id task \<noteq> None \<and> task_id task \<noteq> Some [] \<and> title task \<noteq> None
        \<and> title task \<noteq> Some [] \<and> assignedAgent task = None" by simp_all
  from selectOptimalAgent_index [OF ne, of task] obtain i where i: "i < length (agents orch)"
    and sel: "selectOptimalAgent (agents orch) task = Inr (fst (agents orch ! i))"
    and all: "\<forall>j < length (agents orch). ?score j \<le> ?score i"
    and before: "\<forall>j < i. ?score j < ?score i" by blast
  from map_of_nth [OF d i]
  have m: "map_of (agents orch) (fst (agents orch ! i)) = Some (snd (agents orch ! i))" .
  have "assignTask orch task =
               (if contextRequirement task > contextLimit (snd (agents orch ! i))
                then (Inl CONTEXT_LIMIT_EXCEEDED,
                      task\<lparr>assignedAgent := Some (fst (agents orch ! i))\<rparr>, orch)
                else (Inr (), task\<lparr>assignedAgent := Some (fst (agents orch ! i))\<rparr>,
                      orch\<lparr>taskQueue := taskQueue orch
                                @ [task\<lparr>assignedAgent := Some (fst (agents orch ! i))\<rparr>],
                           orch_events := orch_events orch @ [(''task.assigned'', task_id task)]\<rparr>))"
    using valid sel by (simp add: assignTask_def Let_def m)
  with i all before
  show "\<exists>i < length (agents orch).
           (\<forall>j < length (agents orch). ?score j \<le> ?score i)
           \<and> (\<forall>j < i. ?score j < ?score i)
           \<and> assignTask orch task =
               (if contextRequirement task > contextLimit (snd (agents orch ! i))
                then (Inl CONTEXT_LIMIT_EXCEEDED,
                      task\<lparr>assignedAgent := Some (fst (agents orch ! i))\<rparr>, orch)
                else (Inr (), task\<lparr>assignedAgent := Some (fst (agents orch ! i))\<rparr>,
                      orch\<lparr>taskQueue := taskQueue orch
                                @ [task\<lparr>assignedAgent := Some (fst (agents orch ! i))\<rparr>],
                           orch_events := orch_events orch @ [(''task.assigned'', task_id task)]\<rparr>))"
    by blast
qed

theorem assignTask_outcomes_witness:
  "title (polish_task\<lparr>title := Some []\<rparr>) = Some []
   \<and> fst (assignTask busy_orchestrator (polish_task\<lparr>title := Some []\<rparr>)) = Inl INVALID_TASK
   \<and> task_id polish_task = Some ''T-1'' \<and> title polish_task = Some ''Polish''
   \<and> assignedAgent polish_task = None
   \<and> agents busy_orchestrator \<noteq> []
   \<and> distinct (map fst (agents busy_orchestrator))
   \<and> fst (assignTask busy_orchestrator polish_task) = Inr ()"
proof -
  have "fst (assignTask busy_orchestrator (polish_task\<lparr>title := Some []\<rparr>)) = Inl INVALID_TASK"
    using assignTask_outcomes [of "polish_task\<lparr>title := Some []\<rparr>" busy_orchestrator]
    by simp
  moreover have "agents busy_orchestrator \<noteq> [] \<and> distinct (map fst (agents busy_orchestrator))"
    by (simp add: busy_orchestrator_def roster_def initializeAgents_def personas_def saturated_def)
  ultimately show ?thesis using busy_assignment by (simp add: polish_task_fields)
qed


end
